theory Spec2Isabelle
  imports Main "HOL-Library.Sublist"
begin

section \<open>Outcomes of a Go call\<close>

text \<open>
  A Go call either returns a value, panics (a run-time error such as an index out of
  range), or ends the process through \<open>log.Fatal\<close>, which writes its argument to the
  log and calls \<open>os.Exit(1)\<close>. Strings and byte slices are lists of bytes
  (\<open>string\<close>); \<open>error\<close> values are opaque and carry their text.
\<close>

datatype 'a exec = Panic string | Exit string | Value 'a

datatype error = Error string

text \<open>\<open>xs[i]\<close> on a slice: a checked access that panics out of range.\<close>

definition index :: "'a list \<Rightarrow> nat \<Rightarrow> 'a exec" where
  "index xs i = (if i < length xs then Value (xs ! i) else Panic ''index out of range'')"

section \<open>The library functions the sources call\<close>

subsection \<open>Package strings\<close>

text \<open>\<open>strings.Contains(s, substr)\<close>: \<open>substr\<close> starts at some offset of \<open>s\<close>.\<close>

fun Contains :: "string \<Rightarrow> string \<Rightarrow> bool" where
  "Contains [] substr = (substr = [])"
| "Contains (c # cs) substr = (prefix substr (c # cs) \<or> Contains cs substr)"

text \<open>
  \<open>strings.Split(s, sep)\<close> for a non-empty separator: the pieces between the successive
  leftmost occurrences of \<open>sep\<close>; the result always has at least one element.
\<close>

function Split :: "string \<Rightarrow> string \<Rightarrow> string list" where
  "Split [] sep = [[]]"
| "Split (c # cs) sep =
     (if sep \<noteq> [] \<and> prefix sep (c # cs) then [] # Split (drop (length sep) (c # cs)) sep
      else (case Split cs sep of [] \<Rightarrow> [[c]] | w # ws \<Rightarrow> (c # w) # ws))"
  by pat_completeness auto
termination
  by (relation "measure (\<lambda>(s, sep). length s)") (auto simp: Suc_lessI)

text \<open>
  \<open>strings.FieldsFunc(s, f)\<close>: the maximal non-empty runs of characters that do not
  satisfy \<open>f\<close>, in order.
\<close>

function FieldsFunc :: "string \<Rightarrow> (char \<Rightarrow> bool) \<Rightarrow> string list" where
  "FieldsFunc [] f = []"
| "FieldsFunc (c # cs) f =
     (if f c then FieldsFunc cs f
      else takeWhile (\<lambda>x. \<not> f x) (c # cs) # FieldsFunc (dropWhile (\<lambda>x. \<not> f x) cs) f)"
  by pat_completeness auto
termination
  by (relation "measure (\<lambda>(s, f). length s)") (auto simp: length_dropWhile_le less_Suc_eq_le)

text \<open>\<open>strings.Join(elems, sep)\<close>.\<close>

fun Join :: "string list \<Rightarrow> string \<Rightarrow> string" where
  "Join [] sep = []"
| "Join [x] sep = x"
| "Join (x # y # ys) sep = x @ sep @ Join (y # ys) sep"

subsection \<open>Package regexp\<close>

text \<open>
  A compiled regular expression is a sequence of instructions: match one character of a
  class, repeat a class greedily (\<open>x*\<close>) or lazily (\<open>x*?\<close>), and the two ends of the
  capture group. This covers the four expressions of the repository, each of the shape
  \<open>literal ( class-repetition ) literal\<close>. \<open>.\<close> is any character but the newline; a
  negated class matches the newline too. All characters the expressions name are ASCII,
  so matching bytes and matching UTF-8 code points agree.
\<close>

datatype atom = Chr char | AnyNotNL | NoneOf "char list"

datatype inst = One atom | StarGreedy atom | StarLazy atom | SaveOpen | SaveClose

type_synonym regex = "inst list"

type_synonym caps = "nat option \<times> nat option"

fun accepts :: "atom \<Rightarrow> char \<Rightarrow> bool" where
  "accepts (Chr c) x = (x = c)"
| "accepts AnyNotNL x = (x \<noteq> CHR 0x0A)"
| "accepts (NoneOf cs) x = (x \<notin> set cs)"

text \<open>
  \<open>run re s pos cp\<close> matches \<open>re\<close> at the start of \<open>s\<close>, which is at offset \<open>pos\<close> of
  the match; \<open>cp\<close> holds the offsets saved so far. The alternatives are tried in the
  order of a backtracking search (lazy: stop first; greedy: take one more first), so the
  result is the leftmost-first match of package regexp. It returns the offset of the end
  of the match and the saved offsets.
\<close>

fun run :: "regex \<Rightarrow> string \<Rightarrow> nat \<Rightarrow> caps \<Rightarrow> (nat \<times> caps) option" where
  "run [] s pos cp = Some (pos, cp)"
| "run (One a # re) [] pos cp = None"
| "run (One a # re) (c # cs) pos cp = (if accepts a c then run re cs (Suc pos) cp else None)"
| "run (SaveOpen # re) s pos cp = run re s pos (Some pos, snd cp)"
| "run (SaveClose # re) s pos cp = run re s pos (fst cp, Some pos)"
| "run (StarLazy a # re) [] pos cp = run re [] pos cp"
| "run (StarLazy a # re) (c # cs) pos cp =
     (case run re (c # cs) pos cp of
        Some r \<Rightarrow> Some r
      | None \<Rightarrow> if accepts a c then run (StarLazy a # re) cs (Suc pos) cp else None)"
| "run (StarGreedy a # re) [] pos cp = run re [] pos cp"
| "run (StarGreedy a # re) (c # cs) pos cp =
     (if accepts a c then
        (case run (StarGreedy a # re) cs (Suc pos) cp of
           Some r \<Rightarrow> Some r
         | None \<Rightarrow> run re (c # cs) pos cp)
      else run re (c # cs) pos cp)"

text \<open>
  The slice \<open>FindStringSubmatch\<close> returns for a match of \<open>s\<close> ending at offset \<open>e\<close>:
  the whole match, then the text of the capture group when the expression has one (the
  empty string when the group took no part in the match).
\<close>

definition submatches :: "regex \<Rightarrow> string \<Rightarrow> nat \<Rightarrow> caps \<Rightarrow> string list" where
  "submatches re s e cp =
     take e s #
     (if SaveOpen \<in> set re then
        [case cp of
           (Some b, Some c) \<Rightarrow> take (c - b) (drop b s)
         | _ \<Rightarrow> []]
      else [])"

text \<open>
  \<open>re.FindStringSubmatch(s)\<close>: the match that starts leftmost in \<open>s\<close>, \<open>None\<close> (Go's
  \<open>nil\<close>) when no offset of \<open>s\<close> starts a match.
\<close>

fun FindStringSubmatch :: "regex \<Rightarrow> string \<Rightarrow> string list option" where
  "FindStringSubmatch re [] =
     (case run re [] 0 (None, None) of
        Some r \<Rightarrow> Some (submatches re [] (fst r) (snd r))
      | None \<Rightarrow> None)"
| "FindStringSubmatch re (c # cs) =
     (case run re (c # cs) 0 (None, None) of
        Some r \<Rightarrow> Some (submatches re (c # cs) (fst r) (snd r))
      | None \<Rightarrow> FindStringSubmatch re cs)"

text \<open>The instructions of a literal string.\<close>

definition lit :: "string \<Rightarrow> regex" where
  "lit l = map (\<lambda>c. One (Chr c)) l"

section \<open>utils.go\<close>

text \<open>
  \<open>ScrapeErrorMessage(message, regExpression)\<close>. The expression is passed compiled
  (\<open>regexp.Compile\<close> succeeds on each expression of the repository, so \<open>err\<close> is
  \<open>nil\<close>). The access \<open>scrapped[1]\<close> is the checked \<open>index\<close>.
\<close>

definition ScrapeErrorMessage :: "string \<Rightarrow> regex \<Rightarrow> string exec" where
  "ScrapeErrorMessage message re =
     (case FindStringSubmatch re message of
        None \<Rightarrow> Value ''Error executing operation''
      | Some scrapped \<Rightarrow>
          if length scrapped < 2 then Value ''Error executing operation''
          else index scrapped 1)"

text \<open>The closure \<open>f\<close> of \<open>CheckReturnCode\<close>.\<close>

definition f :: "char \<Rightarrow> bool" where
  \<open>f c = (c = CHR '','' \<or> c = CHR '':'' \<or> c = CHR ''{'' \<or> c = CHR ''}'' \<or> c = CHR 0x22
          \<or> c = CHR '']'' \<or> c = CHR ''['')\<close>

text \<open>The three expressions of \<open>CheckReturnCode\<close>, as \<open>regexp.Compile\<close> reads them:
  \<^verbatim>\<open><title>(.*?)</title>\<close>, \<^verbatim>\<open>{"errors":(.*?)}\<close> and \<^verbatim>\<open>{"error":"(.*?)"}\<close>
  (a brace that does not open a repetition count is a literal).\<close>

definition title_re :: regex where
  \<open>title_re = lit ''<title>'' @ [SaveOpen, StarLazy AnyNotNL, SaveClose] @ lit ''</title>''\<close>

definition errors_re :: regex where
  \<open>errors_re = lit ''{"errors":'' @ [SaveOpen, StarLazy AnyNotNL, SaveClose] @ lit ''}''\<close>

definition error_re :: regex where
  \<open>error_re = lit ''{"error":"'' @ [SaveOpen, StarLazy AnyNotNL, SaveClose] @ lit ''"}''\<close>

text \<open>
  Lines 37 to 63 of \<open>CheckReturnCode\<close>: the value of \<open>message\<close> when \<open>log.Fatal\<close> is
  reached. \<open>log.Debugf\<close> only writes to the log and is left out.
\<close>

definition CheckReturnCode_message :: "string \<Rightarrow> string exec" where
  \<open>CheckReturnCode_message mesg =
     (if Contains mesg ''<html>'' then ScrapeErrorMessage mesg title_re
      else if Contains mesg ''{"errors":{'' then
        (case ScrapeErrorMessage mesg errors_re of
           Panic p \<Rightarrow> Panic p
         | Exit e \<Rightarrow> Exit e
         | Value message \<Rightarrow>
             (let result = Split message '','' in
              case (if length result \<ge> 1 then index result 0 else Value message) of
                Panic p \<Rightarrow> Panic p
              | Exit e \<Rightarrow> Exit e
              | Value message' \<Rightarrow> Value (Join (FieldsFunc message' f) '' '')))
      else if Contains mesg ''{"error":'' then ScrapeErrorMessage mesg error_re
      else Value mesg)\<close>

text \<open>
  \<open>CheckReturnCode(res, mesg)\<close>. It never writes to \<open>mesg\<close>; a normal return is
  \<open>Value\<close> of the caller's slice as the call leaves it.
\<close>

definition CheckReturnCode :: "int \<Rightarrow> string \<Rightarrow> string exec" where
  "CheckReturnCode res mesg =
     (if res \<ge> 300 then
        (case CheckReturnCode_message mesg of
           Panic p \<Rightarrow> Panic p
         | Exit e \<Rightarrow> Exit e
         | Value message \<Rightarrow> Exit (''HTTP request failed: ['' @ message @ '']''))
      else Value mesg)"

section \<open>The webservice package\<close>

text \<open>
  What the sources use of an \<open>http.Response\<close>: the status code, the header (keys in
  canonical form, each with its values), and the body stream, which delivers \<open>Body\<close>
  and then ends, with \<open>io.EOF\<close> (\<open>BodyErr = None\<close>) or with a read error.
\<close>

record Response =
  StatusCode :: int
  Header :: "string \<rightharpoonup> string list"
  Body :: string
  BodyErr :: "error option"

text \<open>\<open>Header.Get(key)\<close>: the first value of the key, the empty string without one.\<close>

definition Header_Get :: "(string \<rightharpoonup> string list) \<Rightarrow> string \<Rightarrow> string" where
  "Header_Get h key = (case h key of None \<Rightarrow> [] | Some [] \<Rightarrow> [] | Some (v # vs) \<Rightarrow> v)"

text \<open>
  A \<open>Webservice\<close> holds the endpoint of its configuration and its \<open>http.Client\<close>.
  The client is the network: \<open>client_Get url\<close> and
  \<open>client_Post url contentType body\<close> give the error of a failed exchange or the
  response.
\<close>

record Webservice =
  ApiEndpoint :: string
  client_Get :: "string \<Rightarrow> error + Response"
  client_Post :: "string \<Rightarrow> string \<Rightarrow> string \<Rightarrow> error + Response"

text \<open>\<open>ioutil.ReadAll(response.Body)\<close>: the bytes read and the error that ended the read.\<close>

definition ReadAll :: "Response \<Rightarrow> string \<times> error option" where
  "ReadAll response = (Body response, BodyErr response)"

text \<open>
  \<open>func (w *Webservice) Post(endpoint string, json []byte) error\<close>: the returned
  error, \<open>None\<close> for \<open>nil\<close>. The response is only logged.
\<close>

definition Post :: "Webservice \<Rightarrow> string \<Rightarrow> string \<Rightarrow> error option" where
  "Post w endpoint json =
     (case client_Post w (ApiEndpoint w @ endpoint) ''application/json'' json of
        Inl err \<Rightarrow> Some err
      | Inr response \<Rightarrow> None)"

text \<open>
  \<open>func (w *Webservice) Get(endpoint string) ([]byte, error)\<close>: the pair it returns,
  \<open>None\<close> for a \<open>nil\<close> slice and for a \<open>nil\<close> error.
\<close>

definition Get :: "Webservice \<Rightarrow> string \<Rightarrow> string option \<times> error option" where
  "Get w endpoint =
     (case client_Get w (ApiEndpoint w @ endpoint) of
        Inl err \<Rightarrow> (None, Some err)
      | Inr response \<Rightarrow>
          (case ReadAll response of
             (body, Some err) \<Rightarrow> (None, Some err)
           | (body, None) \<Rightarrow> (Some body, None)))"

text \<open>
  The file system: the contents of the files, and what the environment decides:
  whether \<open>os.Create\<close> of a path fails, and whether writing to a path fails
  after some number of bytes.
\<close>

record FS =
  files :: "string \<rightharpoonup> string"
  create_err :: "string \<Rightarrow> error option"
  write_err :: "string \<Rightarrow> (nat \<times> error) option"

text \<open>\<open>os.Create(name)\<close>: the file is created or truncated, unless it fails.\<close>

definition Create :: "FS \<Rightarrow> string \<Rightarrow> error option \<times> FS" where
  "Create fs name =
     (case create_err fs name of
        Some err \<Rightarrow> (Some err, fs)
      | None \<Rightarrow> (None, fs\<lparr>files := (files fs)(name \<mapsto> [])\<rparr>))"

text \<open>
  \<open>io.Copy(output, response.Body)\<close> into the file \<open>name\<close>: the bytes of the body
  are written until the body ends or a write fails; it returns the number written and
  the error.
\<close>

definition Copy :: "FS \<Rightarrow> string \<Rightarrow> Response \<Rightarrow> (nat \<times> error option) \<times> FS" where
  "Copy fs name response =
     (case write_err fs name of
        Some (n, err) \<Rightarrow>
          if n < length (Body response)
          then ((n, Some err), fs\<lparr>files := (files fs)(name \<mapsto> take n (Body response))\<rparr>)
          else ((length (Body response), BodyErr response),
                fs\<lparr>files := (files fs)(name \<mapsto> Body response)\<rparr>)
      | None \<Rightarrow>
          ((length (Body response), BodyErr response),
           fs\<lparr>files := (files fs)(name \<mapsto> Body response)\<rparr>))"

text \<open>
  \<open>contentDispositionRegex\<close>, the Go string \<^verbatim>\<open>filename=\"([^\"]*){1}\"\<close>: an escaped
  quote is a quote, and \<open>{1}\<close> repeats the group once.
\<close>

definition contentDispositionRegex :: regex where
  \<open>contentDispositionRegex =
     lit ''filename="'' @ [SaveOpen, StarGreedy (NoneOf ''"''), SaveClose] @ lit ''"''\<close>

text \<open>
  \<open>func (w *Webservice) GetFile(endpoint string, directoryPath string) (string, error)\<close>
  on the file system \<open>fs\<close>: what the call does and the file system it leaves.
  \<open>FindStringSubmatch(...)[1]\<close> indexes the returned slice unchecked (a \<open>nil\<close> slice
  has length 0); the \<open>err\<close> tested after it is still the \<open>nil\<close> of \<open>regexp.Compile\<close>.
\<close>

definition GetFile ::
  "Webservice \<Rightarrow> FS \<Rightarrow> string \<Rightarrow> string \<Rightarrow> (string \<times> error option) exec \<times> FS" where
  "GetFile w fs endpoint directoryPath =
     (case client_Get w (ApiEndpoint w @ endpoint) of
        Inl err \<Rightarrow> (Value ([], Some err), fs)
      | Inr response \<Rightarrow>
          (case index (case FindStringSubmatch contentDispositionRegex
                              (Header_Get (Header response) ''Content-Disposition'') of
                         None \<Rightarrow> []
                       | Some m \<Rightarrow> m) 1 of
             Panic p \<Rightarrow> (Panic p, fs)
           | Exit e \<Rightarrow> (Exit e, fs)
           | Value fileName \<Rightarrow>
               (let realFileName = directoryPath @ ''/'' @ fileName in
                case Create fs realFileName of
                  (Some err, fs1) \<Rightarrow> (Value ([], Some err), fs1)
                | (None, fs1) \<Rightarrow>
                    (case Copy fs1 realFileName response of
                       ((n, Some err), fs2) \<Rightarrow> (Value ([], Some err), fs2)
                     | ((n, None), fs2) \<Rightarrow> (Value (realFileName, None), fs2)))))"

section \<open>Auxiliary definitions\<close>

text \<open>
  The four expressions share one shape, \<open>literal ( repetition ) literal\<close>; the lemmas
  below are stated for it.
\<close>

definition shape :: "string \<Rightarrow> inst \<Rightarrow> string \<Rightarrow> regex" where
  "shape l1 star l2 = lit l1 @ [SaveOpen, star, SaveClose] @ lit l2"

text \<open>
  The message of the single-error rule as the specification words it: the text that
  follows the first \<^verbatim>\<open>{"error":"\<close> of the body, up to the next quote.
\<close>

fun after_first :: "string \<Rightarrow> string \<Rightarrow> string option" where
  "after_first sub [] = (if sub = [] then Some [] else None)"
| "after_first sub (c # cs) =
     (if prefix sub (c # cs) then Some (drop (length sub) (c # cs)) else after_first sub cs)"

definition quoted_error_value :: "string \<Rightarrow> string option" where
  \<open>quoted_error_value body =
     map_option (takeWhile (\<lambda>c. c \<noteq> CHR 0x22)) (after_first ''{"error":"'' body)\<close>

text \<open>Example environments: a response without a read error, a service that answers
  every request with one response, a service no connection reaches, and an empty file
  system on which nothing fails.\<close>

definition reply :: "int \<Rightarrow> (string \<times> string list) list \<Rightarrow> string \<Rightarrow> Response" where
  "reply code hdrs body = \<lparr>StatusCode = code, Header = map_of hdrs, Body = body, BodyErr = None\<rparr>"

definition server :: "Response \<Rightarrow> Webservice" where
  "server r = \<lparr>ApiEndpoint = ''https://api'', client_Get = (\<lambda>url. Inr r),
                client_Post = (\<lambda>url contentType body. Inr r)\<rparr>"

definition unreachable :: "error \<Rightarrow> Webservice" where
  "unreachable err = \<lparr>ApiEndpoint = ''https://api'', client_Get = (\<lambda>url. Inl err),
                       client_Post = (\<lambda>url contentType body. Inl err)\<rparr>"

definition disk :: FS where
  "disk = \<lparr>files = Map.empty, create_err = (\<lambda>name. None), write_err = (\<lambda>name. None)\<rparr>"

declare FieldsFunc.simps(2) [simp del] Split.simps(2) [simp del]

section \<open>Lemmas on the library functions\<close>

subsection \<open>Contains, run, FindStringSubmatch\<close>

lemma Contains_prefix_drop: "Contains s sub \<longleftrightarrow> (\<exists>i\<le>length s. prefix sub (drop i s))"
proof (induction s)
  case Nil
  then show ?case by simp
next
  case (Cons c cs)
  show ?case
  proof
    assume "Contains (c # cs) sub"
    then consider "prefix sub (c # cs)" | "Contains cs sub" by auto
    then show "\<exists>i\<le>length (c # cs). prefix sub (drop i (c # cs))"
    proof cases
      case 1
      then have "prefix sub (drop 0 (c # cs))" by simp
      then show ?thesis by blast
    next
      case 2
      then obtain i where "i \<le> length cs" "prefix sub (drop i cs)" using Cons.IH by blast
      then have "Suc i \<le> length (c # cs)" "prefix sub (drop (Suc i) (c # cs))" by simp_all
      then show ?thesis by blast
    qed
  next
    assume "\<exists>i\<le>length (c # cs). prefix sub (drop i (c # cs))"
    then obtain i where i: "i \<le> length (c # cs)" "prefix sub (drop i (c # cs))" by blast
    show "Contains (c # cs) sub"
    proof (cases i)
      case 0
      then show ?thesis using i by simp
    next
      case (Suc j)
      then have "j \<le> length cs" "prefix sub (drop j cs)" using i by simp_all
      then show ?thesis using Cons.IH by auto
    qed
  qed
qed

lemma Contains_append: "Contains (pre @ sub @ post) sub"
proof -
  have "prefix sub (drop (length pre) (pre @ sub @ post))" by simp
  moreover have "length pre \<le> length (pre @ sub @ post)" by simp
  ultimately show ?thesis unfolding Contains_prefix_drop by blast
qed

lemma run_lit:
  "run (lit l @ re) s pos cp =
     (if prefix l s then run re (drop (length l) s) (pos + length l) cp else None)"
proof (induction l arbitrary: s pos)
  case Nil
  then show ?case by (simp add: lit_def)
next
  case (Cons x l)
  show ?case
  proof (cases s)
    case Nil
    then show ?thesis by (simp add: lit_def)
  next
    case (Cons c cs)
    then show ?thesis using Cons.IH [of cs "Suc pos"] by (simp add: lit_def)
  qed
qed

lemma run_lit_only:
  "run (lit l) s pos cp = (if prefix l s then Some (pos + length l, cp) else None)"
  using run_lit [of l "[]" s pos cp] by simp

text \<open>No occurrence of the leading literal starts before offset \<open>length pre\<close>.\<close>

lemma no_earlier_prefix:
  assumes "\<not> Contains (pre @ butlast l) l" and "i < length pre"
  shows "\<not> prefix l (drop i (pre @ l @ rest))"
proof
  assume p: "prefix l (drop i (pre @ l @ rest))"
  have l: "l \<noteq> []" using assms(1) by (cases "pre @ butlast l") auto
  have eq: "drop i (pre @ l @ rest) = drop i (pre @ butlast l) @ [last l] @ rest"
    using assms(2) l by (simp add: append_butlast_last_id)
  have "prefix (drop i (pre @ butlast l)) (drop i (pre @ l @ rest))"
    unfolding eq by simp
  moreover have "length l \<le> length (drop i (pre @ butlast l))"
    using assms(2) l by (cases l) auto
  ultimately have "prefix l (drop i (pre @ butlast l))"
    using p prefix_length_prefix by blast
  moreover have "i \<le> length (pre @ butlast l)" using assms(2) by simp
  ultimately have "Contains (pre @ butlast l) l" unfolding Contains_prefix_drop by blast
  then show False using assms(1) by simp
qed

lemma find_skip:
  "(\<forall>i<length pre. run re (drop i (pre @ s)) 0 (None, None) = None) \<Longrightarrow>
     FindStringSubmatch re (pre @ s) = FindStringSubmatch re s"
proof (induction pre)
  case Nil
  then show ?case by simp
next
  case (Cons c pre)
  have "run re (drop 0 ((c # pre) @ s)) 0 (None, None) = None" using Cons.prems by blast
  then have h: "run re (c # pre @ s) 0 (None, None) = None" by simp
  have "\<forall>i<length pre. run re (drop i (pre @ s)) 0 (None, None) = None"
  proof (intro allI impI)
    fix i assume "i < length pre"
    then have "Suc i < length (c # pre)" by simp
    then have "run re (drop (Suc i) ((c # pre) @ s)) 0 (None, None) = None"
      using Cons.prems by blast
    then show "run re (drop i (pre @ s)) 0 (None, None) = None" by simp
  qed
  then show ?case using Cons.IH h by simp
qed

lemma find_here:
  "run re s 0 (None, None) = Some r \<Longrightarrow>
     FindStringSubmatch re s = Some (submatches re s (fst r) (snd r))"
  by (cases s) simp_all

lemma find_SomeD:
  "FindStringSubmatch re s = Some m \<Longrightarrow>
     \<exists>pre t r. s = pre @ t \<and> run re t 0 (None, None) = Some r \<and>
       m = submatches re t (fst r) (snd r)"
proof (induction s)
  case Nil
  then show ?case by (auto split: option.splits)
next
  case (Cons c cs)
  show ?case
  proof (cases "run re (c # cs) 0 (None, None)")
    case None
    then have "FindStringSubmatch re cs = Some m" using Cons.prems by simp
    then obtain pre t r where "cs = pre @ t" "run re t 0 (None, None) = Some r"
      "m = submatches re t (fst r) (snd r)" using Cons.IH by blast
    then have "c # cs = (c # pre) @ t" by simp
    then show ?thesis
      using \<open>run re t 0 (None, None) = Some r\<close> \<open>m = submatches re t (fst r) (snd r)\<close>
      by blast
  next
    case (Some r)
    then have "m = submatches re (c # cs) (fst r) (snd r)" using Cons.prems by simp
    moreover have "c # cs = [] @ (c # cs)" by simp
    ultimately show ?thesis using Some by blast
  qed
qed

lemma not_Contains_head:
  assumes "\<not> Contains (v @ butlast l) l"
  shows "\<not> prefix l (v @ l @ post) \<or> v = []"
proof (cases v)
  case Nil
  then show ?thesis by simp
next
  case (Cons x v')
  have "\<not> prefix l (drop 0 ((x # v') @ l @ post))"
  proof -
    have "\<not> prefix l (drop 0 (([] @ (x # v')) @ l @ post))"
      using assms no_earlier_prefix [of "x # v'" l 0 post] Cons by simp
    then show ?thesis by simp
  qed
  then show ?thesis using Cons by simp
qed

text \<open>The lazy repetition stops at the first occurrence of the literal after it.\<close>

lemma run_lazy:
  assumes "\<forall>x\<in>set v. accepts a x" and "\<not> Contains (v @ butlast l) l"
  shows "run (StarLazy a # SaveClose # lit l) (v @ l @ post) pos cp =
           Some (pos + length v + length l, (fst cp, Some (pos + length v)))"
  using assms
proof (induction v arbitrary: pos)
  case Nil
  have l: "l \<noteq> []" using Nil.prems(2) by (cases "butlast l") auto
  then obtain y ys where "l = y # ys" by (cases l) auto
  then show ?case by (simp add: run_lit_only)
next
  case (Cons x v)
  have np: "\<not> prefix l (x # v @ l @ post)"
    using not_Contains_head [OF Cons.prems(2), of post] by simp
  have ih: "run (StarLazy a # SaveClose # lit l) (v @ l @ post) (Suc pos) cp =
              Some (Suc pos + length v + length l, (fst cp, Some (Suc pos + length v)))"
    using Cons.IH [of "Suc pos"] Cons.prems by simp
  show ?case using np ih Cons.prems(1) by (simp add: run_lit_only)
qed

text \<open>The greedy repetition runs up to the literal when the class excludes its first character.\<close>

lemma run_greedy:
  assumes "\<forall>x\<in>set v. accepts a x" and "l \<noteq> []" and "\<not> accepts a (hd l)"
  shows "run (StarGreedy a # SaveClose # lit l) (v @ l @ post) pos cp =
           Some (pos + length v + length l, (fst cp, Some (pos + length v)))"
  using assms
proof (induction v arbitrary: pos)
  case Nil
  then obtain y ys where "l = y # ys" by (cases l) auto
  then show ?case using Nil.prems by (simp add: run_lit_only)
next
  case (Cons x v)
  have "run (StarGreedy a # SaveClose # lit l) (v @ l @ post) (Suc pos) cp =
              Some (Suc pos + length v + length l, (fst cp, Some (Suc pos + length v)))"
    using Cons.IH [of "Suc pos"] Cons.prems by simp
  then show ?case using Cons.prems(1) by simp
qed

text \<open>Whatever a repetition followed by a literal matches is a run of the class and
  then the literal.\<close>

lemma run_star_sound:
  assumes "star = StarLazy a \<or> star = StarGreedy a"
    and "run (star # SaveClose # lit l) s pos cp = Some r"
  shows "\<exists>g post. s = g @ l @ post \<and> (\<forall>x\<in>set g. accepts a x) \<and>
           r = (pos + length g + length l, (fst cp, Some (pos + length g)))"
  using assms(2)
proof (induction s arbitrary: pos)
  case Nil
  then have "run (lit l) [] pos (fst cp, Some pos) = Some r" using assms(1) by auto
  then have "l = []" "r = (pos, (fst cp, Some pos))"
    by (auto simp: run_lit_only split: if_splits)
  then show ?case by simp
next
  case (Cons c cs)
  show ?case
  proof (cases "run (lit l) (c # cs) pos (fst cp, Some pos) = Some r")
    case True
    then have p: "prefix l (c # cs)" and r: "r = (pos + length l, (fst cp, Some pos))"
      by (auto simp: run_lit_only split: if_splits)
    from p obtain post where "c # cs = l @ post" by (auto simp: prefix_def)
    then have "c # cs = [] @ l @ post" by simp
    then show ?thesis using r by fastforce
  next
    case False
    then have acc: "accepts a c" and rec: "run (star # SaveClose # lit l) cs (Suc pos) cp = Some r"
      using Cons.prems assms(1) by (auto split: option.splits if_splits)
    from Cons.IH [OF rec] obtain g post where g: "cs = g @ l @ post" "\<forall>x\<in>set g. accepts a x"
      "r = (Suc pos + length g + length l, (fst cp, Some (Suc pos + length g)))" by blast
    have "c # cs = (c # g) @ l @ post" using g(1) by simp
    moreover have "\<forall>x\<in>set (c # g). accepts a x" using g(2) acc by simp
    moreover have "r = (pos + length (c # g) + length l, (fst cp, Some (pos + length (c # g))))"
      using g(3) by simp
    ultimately show ?thesis by blast
  qed
qed


lemma SaveOpen_shape: "SaveOpen \<in> set (shape l1 star l2)"
  by (simp add: shape_def)

lemma run_shape:
  "run (shape l1 star l2) s 0 (None, None) =
     (if prefix l1 s
      then run (star # SaveClose # lit l2) (drop (length l1) s) (length l1) (Some (length l1), None)
      else None)"
  by (simp add: shape_def run_lit)

lemma find_shape:
  assumes "\<not> Contains (pre @ butlast l1) l1"
    and "run (star # SaveClose # lit l2) (v @ l2 @ post) (length l1) (Some (length l1), None) =
           Some (length l1 + length v + length l2, (Some (length l1), Some (length l1 + length v)))"
  shows "FindStringSubmatch (shape l1 star l2) (pre @ l1 @ v @ l2 @ post) = Some [l1 @ v @ l2, v]"
proof -
  let ?re = "shape l1 star l2"
  have "\<forall>i<length pre. run ?re (drop i (pre @ l1 @ v @ l2 @ post)) 0 (None, None) = None"
    using no_earlier_prefix [OF assms(1)] by (simp add: run_shape)
  then have "FindStringSubmatch ?re (pre @ l1 @ v @ l2 @ post) =
               FindStringSubmatch ?re (l1 @ v @ l2 @ post)"
    by (rule find_skip)
  moreover have "run ?re (l1 @ v @ l2 @ post) 0 (None, None) =
      Some (length l1 + length v + length l2, (Some (length l1), Some (length l1 + length v)))"
    using assms(2) by (simp add: run_shape)
  then have "FindStringSubmatch ?re (l1 @ v @ l2 @ post) =
      Some (submatches ?re (l1 @ v @ l2 @ post) (length l1 + length v + length l2)
              (Some (length l1), Some (length l1 + length v)))"
    using find_here by fastforce
  moreover have "submatches ?re (l1 @ v @ l2 @ post) (length l1 + length v + length l2)
              (Some (length l1), Some (length l1 + length v)) = [l1 @ v @ l2, v]"
    by (simp add: submatches_def SaveOpen_shape)
  ultimately show ?thesis by simp
qed

lemma find_shape_lazy:
  assumes "\<not> Contains (pre @ butlast l1) l1" and "\<forall>x\<in>set v. accepts a x"
    and "\<not> Contains (v @ butlast l2) l2"
  shows "FindStringSubmatch (shape l1 (StarLazy a) l2) (pre @ l1 @ v @ l2 @ post) =
           Some [l1 @ v @ l2, v]"
  using find_shape [OF assms(1)] run_lazy [OF assms(2,3)] by simp

lemma find_shape_greedy:
  assumes "\<not> Contains (pre @ butlast l1) l1" and "\<forall>x\<in>set v. accepts a x"
    and "l2 \<noteq> []" and "\<not> accepts a (hd l2)"
  shows "FindStringSubmatch (shape l1 (StarGreedy a) l2) (pre @ l1 @ v @ l2 @ post) =
           Some [l1 @ v @ l2, v]"
  using find_shape [OF assms(1)] run_greedy [OF assms(2,3,4)] by simp

lemma find_shape_sound:
  assumes "star = StarLazy a \<or> star = StarGreedy a"
    and "FindStringSubmatch (shape l1 star l2) s = Some m"
  shows "\<exists>pre g post. s = pre @ l1 @ g @ l2 @ post \<and> (\<forall>x\<in>set g. accepts a x) \<and>
           m = [l1 @ g @ l2, g]"
proof -
  from find_SomeD [OF assms(2)] obtain pre t r where
    s: "s = pre @ t" and r: "run (shape l1 star l2) t 0 (None, None) = Some r"
    and m: "m = submatches (shape l1 star l2) t (fst r) (snd r)" by blast
  from r have p: "prefix l1 t"
    and r': "run (star # SaveClose # lit l2) (drop (length l1) t) (length l1)
               (Some (length l1), None) = Some r"
    by (auto simp: run_shape split: if_splits)
  from p obtain u where t: "t = l1 @ u" by (auto simp: prefix_def)
  from run_star_sound [OF assms(1) r'] t obtain g post where
    u: "u = g @ l2 @ post" and g: "\<forall>x\<in>set g. accepts a x"
    and rv: "r = (length l1 + length g + length l2,
                  (Some (length l1), Some (length l1 + length g)))" by auto
  have "m = [l1 @ g @ l2, g]"
    using m t u rv by (simp add: submatches_def SaveOpen_shape)
  moreover have "s = pre @ l1 @ g @ l2 @ post" using s t u by simp
  ultimately show ?thesis using g by blast
qed

subsection \<open>Split, FieldsFunc\<close>

lemma Split_not_Nil: "Split s sep \<noteq> []"
proof (induction s)
  case Nil
  then show ?case by simp
next
  case (Cons c cs)
  show ?case
  proof (cases "sep \<noteq> [] \<and> prefix sep (c # cs)")
    case True
    then show ?thesis by (subst Split.simps) simp
  next
    case False
    then show ?thesis by (subst Split.simps) (simp split: list.splits)
  qed
qed

lemma Split_char_Cons:
  "Split (x # xs) [c] =
     (if x = c then [] # Split xs [c]
      else (case Split xs [c] of [] \<Rightarrow> [[x]] | w # ws \<Rightarrow> (x # w) # ws))"
  by (subst Split.simps) simp

lemma hd_Split_char: "hd (Split s [c]) = takeWhile (\<lambda>x. x \<noteq> c) s"
proof (induction s)
  case Nil
  then show ?case by simp
next
  case (Cons x xs)
  obtain w ws where w: "Split xs [c] = w # ws"
    using Split_not_Nil [of xs "[c]"] by (cases "Split xs [c]") auto
  show ?case using Cons w by (simp only: Split_char_Cons) simp
qed

lemma index_Split_0: "index (Split s [c]) 0 = Value (takeWhile (\<lambda>x. x \<noteq> c) s)"
proof -
  obtain w ws where w: "Split s [c] = w # ws"
    using Split_not_Nil [of s "[c]"] by (cases "Split s [c]") auto
  then have "w = takeWhile (\<lambda>x. x \<noteq> c) s" using hd_Split_char [of s c] by simp
  then show ?thesis using w by (simp add: index_def)
qed

lemma filter_takeWhile_dropWhile:
  "filter P xs = takeWhile P xs @ filter P (dropWhile P xs)"
  by (induction xs) auto

lemma FieldsFunc_Cons_sep: "g c \<Longrightarrow> FieldsFunc (c # cs) g = FieldsFunc cs g"
  by (subst FieldsFunc.simps) simp

lemma FieldsFunc_Cons_field:
  "\<not> g c \<Longrightarrow> FieldsFunc (c # cs) g =
     (c # takeWhile (\<lambda>x. \<not> g x) cs) # FieldsFunc (dropWhile (\<lambda>x. \<not> g x) cs) g"
  by (subst FieldsFunc.simps) simp

lemma concat_FieldsFunc: "concat (FieldsFunc s g) = filter (\<lambda>x. \<not> g x) s"
proof (induction s g rule: FieldsFunc.induct)
  case (1 g)
  then show ?case by simp
next
  case (2 c cs g)
  show ?case
  proof (cases "g c")
    case True
    then have "concat (FieldsFunc cs g) = filter (\<lambda>x. \<not> g x) cs" by (rule "2.IH"(1))
    then show ?thesis using True by (simp add: FieldsFunc_Cons_sep del: FieldsFunc.simps)
  next
    case False
    then have ih: "concat (FieldsFunc (dropWhile (\<lambda>x. \<not> g x) cs) g) =
                 filter (\<lambda>x. \<not> g x) (dropWhile (\<lambda>x. \<not> g x) cs)" by (rule "2.IH"(2))
    have "concat (FieldsFunc (c # cs) g) =
            c # (takeWhile (\<lambda>x. \<not> g x) cs @ filter (\<lambda>x. \<not> g x) (dropWhile (\<lambda>x. \<not> g x) cs))"
      using False ih by (simp add: FieldsFunc_Cons_field del: FieldsFunc.simps)
    also have "\<dots> = c # filter (\<lambda>x. \<not> g x) cs"
      using filter_takeWhile_dropWhile [of "\<lambda>x. \<not> g x" cs] by (simp only:)
    also have "\<dots> = filter (\<lambda>x. \<not> g x) (c # cs)" using False by simp
    finally show ?thesis .
  qed
qed

lemma FieldsFunc_fields: "w \<in> set (FieldsFunc s g) \<Longrightarrow> w \<noteq> [] \<and> (\<forall>x\<in>set w. \<not> g x)"
proof (induction s g rule: FieldsFunc.induct)
  case (1 g)
  then show ?case by simp
next
  case (2 c cs g)
  show ?case
  proof (cases "g c")
    case True
    then have "w \<in> set (FieldsFunc cs g)"
      using "2.prems" by (simp add: FieldsFunc_Cons_sep del: FieldsFunc.simps)
    then show ?thesis using "2.IH"(1) True by blast
  next
    case False
    then consider "w = c # takeWhile (\<lambda>x. \<not> g x) cs"
      | "w \<in> set (FieldsFunc (dropWhile (\<lambda>x. \<not> g x) cs) g)"
      using "2.prems" by (auto simp add: FieldsFunc_Cons_field simp del: FieldsFunc.simps)
    then show ?thesis
    proof cases
      case 1
      then show ?thesis using False by (auto dest: set_takeWhileD)
    next
      case 2
      then show ?thesis using "2.IH"(2) False by blast
    qed
  qed
qed


section \<open>Lemmas on utils.go\<close>

lemma ScrapeErrorMessage_total:
  "ScrapeErrorMessage m re =
     Value (case FindStringSubmatch re m of
              None \<Rightarrow> ''Error executing operation''
            | Some scrapped \<Rightarrow>
                if length scrapped < 2 then ''Error executing operation'' else scrapped ! 1)"
  by (simp add: ScrapeErrorMessage_def index_def split: option.splits)

lemma ScrapeErrorMessage_None:
  "FindStringSubmatch re m = None \<Longrightarrow> ScrapeErrorMessage m re = Value ''Error executing operation''"
  by (simp add: ScrapeErrorMessage_def)

lemma ScrapeErrorMessage_Some:
  "FindStringSubmatch re m = Some [whole, g] \<Longrightarrow> ScrapeErrorMessage m re = Value g"
  by (simp add: ScrapeErrorMessage_def index_def)

lemma title_re_shape: "title_re = shape ''<title>'' (StarLazy AnyNotNL) ''</title>''"
  by (simp add: title_re_def shape_def)

lemma errors_re_shape: \<open>errors_re = shape ''{"errors":'' (StarLazy AnyNotNL) ''}''\<close>
  by (simp add: errors_re_def shape_def)

lemma error_re_shape: \<open>error_re = shape ''{"error":"'' (StarLazy AnyNotNL) ''"}''\<close>
  by (simp add: error_re_def shape_def)

lemma cd_shape: \<open>contentDispositionRegex = shape ''filename="'' (StarGreedy (NoneOf ''"'')) ''"''\<close>
  by (simp add: contentDispositionRegex_def shape_def)

lemma generic_fields:
  "Join (FieldsFunc (takeWhile (\<lambda>x. x \<noteq> CHR '','') ''Error executing operation'') f) '' '' =
     ''Error executing operation''"
  by code_simp

lemma message_html:
  "Contains mesg ''<html>'' \<Longrightarrow> CheckReturnCode_message mesg = ScrapeErrorMessage mesg title_re"
  by (simp add: CheckReturnCode_message_def)

lemma message_errors:
  assumes \<open>\<not> Contains mesg ''<html>''\<close> and \<open>Contains mesg ''{"errors":{''\<close>
    and "ScrapeErrorMessage mesg errors_re = Value capture"
  shows "CheckReturnCode_message mesg =
           Value (Join (FieldsFunc (takeWhile (\<lambda>x. x \<noteq> CHR '','') capture) f) '' '')"
proof -
  have "1 \<le> length (Split capture '','')"
    using Split_not_Nil [of capture "'',''"] by (cases "Split capture '',''") auto
  then show ?thesis
    using assms by (simp add: CheckReturnCode_message_def index_Split_0)
qed

lemma message_error:
  assumes \<open>\<not> Contains mesg ''<html>''\<close> and \<open>\<not> Contains mesg ''{"errors":{''\<close>
    and \<open>Contains mesg ''{"error":''\<close>
  shows "CheckReturnCode_message mesg = ScrapeErrorMessage mesg error_re"
  using assms by (simp add: CheckReturnCode_message_def)

lemma message_raw:
  assumes \<open>\<not> Contains mesg ''<html>''\<close> and \<open>\<not> Contains mesg ''{"errors":{''\<close>
    and \<open>\<not> Contains mesg ''{"error":''\<close>
  shows "CheckReturnCode_message mesg = Value mesg"
  using assms by (simp add: CheckReturnCode_message_def)

lemma fatal_report:
  "300 \<le> res \<Longrightarrow> CheckReturnCode_message mesg = Value message \<Longrightarrow>
     CheckReturnCode res mesg = Exit (''HTTP request failed: ['' @ message @ '']'')"
  by (simp add: CheckReturnCode_def)

lemma message_Value: "\<exists>message. CheckReturnCode_message mesg = Value message"
proof -
  obtain t where t: "ScrapeErrorMessage mesg title_re = Value t"
    using ScrapeErrorMessage_total by blast
  obtain e where e: "ScrapeErrorMessage mesg error_re = Value e"
    using ScrapeErrorMessage_total by blast
  obtain c where c: "ScrapeErrorMessage mesg errors_re = Value c"
    using ScrapeErrorMessage_total by blast
  consider \<open>Contains mesg ''<html>''\<close>
    | \<open>\<not> Contains mesg ''<html>''\<close> \<open>Contains mesg ''{"errors":{''\<close>
    | \<open>\<not> Contains mesg ''<html>''\<close> \<open>\<not> Contains mesg ''{"errors":{''\<close> \<open>Contains mesg ''{"error":''\<close>
    | \<open>\<not> Contains mesg ''<html>''\<close> \<open>\<not> Contains mesg ''{"errors":{''\<close> \<open>\<not> Contains mesg ''{"error":''\<close>
    by blast
  then show ?thesis
  proof cases
    case 1
    then show ?thesis using message_html t by simp
  next
    case 2
    then show ?thesis using message_errors c by blast
  next
    case 3
    then show ?thesis using message_error e by simp
  next
    case 4
    then show ?thesis using message_raw by blast
  qed
qed

subsection \<open>The lazy repetition, both ways\<close>

lemma short_not_Contains: "length s < length l \<Longrightarrow> \<not> Contains s l"
proof (induction s)
  case Nil
  then show ?case by auto
next
  case (Cons c cs)
  have "\<not> prefix l (c # cs)" using Cons.prems prefix_length_le by fastforce
  then show ?case using Cons by simp
qed

lemma prefix_butlast_ext:
  assumes "prefix l (g @ butlast l)" shows "prefix l (g @ l @ post)"
proof -
  have "prefix (butlast l) l" by (simp add: prefixeq_butlast)
  then have "prefix (g @ butlast l) (g @ l @ post)"
    by (metis prefix_append prefix_order.order_refl same_prefix_prefix)
  then show ?thesis using assms prefix_order.trans by blast
qed

text \<open>What the lazy repetition takes holds no earlier occurrence of the literal.\<close>

lemma run_lazy_sound:
  assumes "l \<noteq> []" and "run (StarLazy a # SaveClose # lit l) s pos cp = Some r"
  shows "\<exists>g post. s = g @ l @ post \<and> (\<forall>x\<in>set g. accepts a x) \<and>
           \<not> Contains (g @ butlast l) l \<and>
           r = (pos + length g + length l, (fst cp, Some (pos + length g)))"
  using assms(2)
proof (induction s arbitrary: pos)
  case Nil
  then have "run (lit l) [] pos (fst cp, Some pos) = Some r" by simp
  then have "l = []" by (auto simp: run_lit_only split: if_splits)
  then show ?case using assms(1) by simp
next
  case (Cons c cs)
  show ?case
  proof (cases "run (lit l) (c # cs) pos (fst cp, Some pos)")
    case (Some r')
    then have "r' = r" using Cons.prems by simp
    then have p: "prefix l (c # cs)" and r: "r = (pos + length l, (fst cp, Some pos))"
      using Some by (auto simp: run_lit_only split: if_splits)
    from p obtain post where "c # cs = l @ post" by (auto simp: prefix_def)
    then have "c # cs = [] @ l @ post" by simp
    moreover have "\<not> Contains ([] @ butlast l) l"
      using assms(1) short_not_Contains [of "butlast l" l] by simp
    ultimately show ?thesis using r by fastforce
  next
    case None
    then have np: "\<not> prefix l (c # cs)" by (auto simp: run_lit_only split: if_splits)
    have acc: "accepts a c" and rec: "run (StarLazy a # SaveClose # lit l) cs (Suc pos) cp = Some r"
      using Cons.prems None by (auto split: if_splits)
    from Cons.IH [OF rec] obtain g post where g: "cs = g @ l @ post" "\<forall>x\<in>set g. accepts a x"
      "\<not> Contains (g @ butlast l) l"
      "r = (Suc pos + length g + length l, (fst cp, Some (Suc pos + length g)))" by blast
    have "c # cs = (c # g) @ l @ post" using g(1) by simp
    moreover have "\<forall>x\<in>set (c # g). accepts a x" using g(2) acc by simp
    moreover have "r = (pos + length (c # g) + length l, (fst cp, Some (pos + length (c # g))))"
      using g(4) by simp
    moreover have "\<not> Contains ((c # g) @ butlast l) l"
    proof -
      have "\<not> prefix l ((c # g) @ butlast l)"
        using np prefix_butlast_ext [of l "c # g" post] g(1) by auto
      then show ?thesis using g(3) by simp
    qed
    ultimately show ?thesis by blast
  qed
qed

lemma find_shape_lazy_sound:
  assumes "l2 \<noteq> []" and "FindStringSubmatch (shape l1 (StarLazy a) l2) s = Some m"
  shows "\<exists>pre g post. s = pre @ l1 @ g @ l2 @ post \<and> (\<forall>x\<in>set g. accepts a x) \<and>
           \<not> Contains (g @ butlast l2) l2 \<and> m = [l1 @ g @ l2, g]"
proof -
  from find_SomeD [OF assms(2)] obtain pre t r where
    s: "s = pre @ t" and r: "run (shape l1 (StarLazy a) l2) t 0 (None, None) = Some r"
    and m: "m = submatches (shape l1 (StarLazy a) l2) t (fst r) (snd r)" by blast
  from r have p: "prefix l1 t"
    and r': "run (StarLazy a # SaveClose # lit l2) (drop (length l1) t) (length l1)
               (Some (length l1), None) = Some r"
    by (auto simp: run_shape split: if_splits)
  from p obtain u where t: "t = l1 @ u" by (auto simp: prefix_def)
  from run_lazy_sound [OF assms(1) r'] t obtain g post where
    u: "u = g @ l2 @ post" and g: "\<forall>x\<in>set g. accepts a x"
    and c: "\<not> Contains (g @ butlast l2) l2"
    and rv: "r = (length l1 + length g + length l2,
                  (Some (length l1), Some (length l1 + length g)))" by auto
  have "m = [l1 @ g @ l2, g]"
    using m t u rv by (simp add: submatches_def SaveOpen_shape)
  moreover have "s = pre @ l1 @ g @ l2 @ post" using s t u by simp
  ultimately show ?thesis using g c by blast
qed

text \<open>The outcome of \<open>ScrapeErrorMessage\<close> with a lazy expression, both ways.\<close>

lemma Scrape_lazy_cases:
  assumes "l2 \<noteq> []" and "ScrapeErrorMessage s (shape l1 (StarLazy a) l2) = Value message"
  shows "(FindStringSubmatch (shape l1 (StarLazy a) l2) s = None \<and>
            message = ''Error executing operation'') \<or>
         (\<exists>pre post. s = pre @ l1 @ message @ l2 @ post \<and> (\<forall>x\<in>set message. accepts a x) \<and>
            \<not> Contains (message @ butlast l2) l2)"
proof (cases "FindStringSubmatch (shape l1 (StarLazy a) l2) s")
  case None
  then show ?thesis using assms(2) by (simp add: ScrapeErrorMessage_None)
next
  case (Some m)
  from find_shape_lazy_sound [OF assms(1) Some] obtain pre g post where
    g: "s = pre @ l1 @ g @ l2 @ post" "\<forall>x\<in>set g. accepts a x"
       "\<not> Contains (g @ butlast l2) l2" "m = [l1 @ g @ l2, g]" by blast
  then have "ScrapeErrorMessage s (shape l1 (StarLazy a) l2) = Value g"
    using Some ScrapeErrorMessage_Some by blast
  then have "message = g" using assms(2) by simp
  then show ?thesis using g by blast
qed

lemma Scrape_lazy_first:
  assumes "\<not> Contains (pre @ butlast l1) l1" and "\<forall>x\<in>set v. accepts a x"
    and "\<not> Contains (v @ butlast l2) l2"
  shows "ScrapeErrorMessage (pre @ l1 @ v @ l2 @ post) (shape l1 (StarLazy a) l2) = Value v"
  using find_shape_lazy [OF assms] ScrapeErrorMessage_Some by blast

lemma accepts_AnyNotNL_all: "(\<forall>x\<in>set v. accepts AnyNotNL x) = (CHR 0x0A \<notin> set v)"
  by auto

lemma Contains_char: "Contains s [c] = (c \<in> set s)"
  by (induction s) auto

lemma Scrape_dot_cases:
  assumes "l2 \<noteq> []" and "ScrapeErrorMessage s (shape l1 (StarLazy AnyNotNL) l2) = Value message"
  shows "(FindStringSubmatch (shape l1 (StarLazy AnyNotNL) l2) s = None \<and>
            message = ''Error executing operation'') \<or>
         (\<exists>pre post. s = pre @ l1 @ message @ l2 @ post \<and> CHR 0x0A \<notin> set message \<and>
            \<not> Contains (message @ butlast l2) l2)"
  using Scrape_lazy_cases [OF assms] unfolding accepts_AnyNotNL_all .

lemma Scrape_dot_first:
  assumes "\<not> Contains (pre @ butlast l1) l1" and "CHR 0x0A \<notin> set v"
    and "\<not> Contains (v @ butlast l2) l2"
  shows "ScrapeErrorMessage (pre @ l1 @ v @ l2 @ post) (shape l1 (StarLazy AnyNotNL) l2) = Value v"
  using assms Scrape_lazy_first [of pre l1 v AnyNotNL l2 post] unfolding accepts_AnyNotNL_all
  by blast

section \<open>The claims on CheckReturnCode\<close>



text \<open>
  C2. For a body that contains the errors marker and not \<open><html>\<close>, the message is
  computed in these steps: \<open>ScrapeErrorMessage\<close> with the errors expression gives the
  capture (the generic text without a match; else the text after \<^verbatim>\<open>{"errors":\<close> up to
  the first closing brace of its line); the capture is split on commas and the first
  piece kept, which is the capture up to its first comma; \<open>FieldsFunc\<close> cuts that piece
  at the characters of \<open>f\<close>, so that the fields, put together, are the piece with every
  such character removed, and no field is empty; the fields are joined with single
  spaces.
\<close>

theorem CheckReturnCode_errors_rule:
  assumes "300 \<le> res" and \<open>\<not> Contains mesg ''<html>''\<close> and \<open>Contains mesg ''{"errors":{''\<close>
  shows \<open>\<exists>capture segment fields.
     ScrapeErrorMessage mesg errors_re = Value capture \<and>
     (FindStringSubmatch errors_re mesg = None \<and> capture = ''Error executing operation'' \<or>
      (\<exists>pre post. mesg = pre @ ''{"errors":'' @ capture @ ''}'' @ post \<and>
         CHR 0x0A \<notin> set capture \<and> CHR ''}'' \<notin> set capture)) \<and>
     Split capture '','' \<noteq> [] \<and>
     segment = hd (Split capture '','') \<and>
     segment = takeWhile (\<lambda>c. c \<noteq> CHR '','') capture \<and>
     fields = FieldsFunc segment f \<and>
     concat fields = filter (\<lambda>c. \<not> f c) segment \<and>
     [] \<notin> set fields \<and>
     CheckReturnCode res mesg = Exit (''HTTP request failed: ['' @ Join fields '' '' @ '']'')\<close>
proof -
  obtain capture where c: "ScrapeErrorMessage mesg errors_re = Value capture"
    using ScrapeErrorMessage_total by blast
  define segment where "segment = takeWhile (\<lambda>c. c \<noteq> CHR '','') capture"
  define fields where "fields = FieldsFunc segment f"
  have c': \<open>ScrapeErrorMessage mesg (shape ''{"errors":'' (StarLazy AnyNotNL) ''}'') = Value capture\<close>
    using c by (simp only: errors_re_shape)
  have cases: \<open>FindStringSubmatch errors_re mesg = None \<and> capture = ''Error executing operation'' \<or>
      (\<exists>pre post. mesg = pre @ ''{"errors":'' @ capture @ ''}'' @ post \<and>
         CHR 0x0A \<notin> set capture \<and> CHR ''}'' \<notin> set capture)\<close>
    using Scrape_dot_cases [OF _ c'] by (simp add: errors_re_shape Contains_char)
  have seg: "segment = hd (Split capture '','')"
    by (simp add: segment_def hd_Split_char)
  have cat: "concat fields = filter (\<lambda>c. \<not> f c) segment"
    by (simp add: fields_def concat_FieldsFunc)
  have ne: "[] \<notin> set fields"
    using FieldsFunc_fields [of "[]" segment f] by (auto simp: fields_def)
  have "CheckReturnCode_message mesg = Value (Join fields '' '')"
    using message_errors [OF assms(2,3) c] by (simp add: fields_def segment_def)
  then have "CheckReturnCode res mesg = Exit (''HTTP request failed: ['' @ Join fields '' '' @ '']'')"
    using fatal_report [OF assms(1)] by blast
  then show ?thesis
    using c cases seg cat ne Split_not_Nil [of capture "'',''"] segment_def fields_def by blast
qed

text \<open>
  The body of the specification: the message is \<open>name is required\<close>.
\<close>

theorem CheckReturnCode_errors_rule_witness:
  \<open>(300::int) \<le> 422 \<and>
   \<not> Contains ''{"errors":{"name":"is required","age":"must be positive"}}'' ''<html>'' \<and>
   Contains ''{"errors":{"name":"is required","age":"must be positive"}}'' ''{"errors":{'' \<and>
   CheckReturnCode 422 ''{"errors":{"name":"is required","age":"must be positive"}}'' =
     Exit ''HTTP request failed: [name is required]''\<close>
proof -
  let ?b = \<open>''{"errors":{"name":"is required","age":"must be positive"}}''\<close>
  have d: "(300::int) \<le> 422" by simp
  have b: "\<not> Contains ?b ''<html>''" by code_simp
  have c: \<open>Contains ?b ''{"errors":{''\<close> by code_simp
  from CheckReturnCode_errors_rule [OF d b c] obtain capture segment fields where
    s: "ScrapeErrorMessage ?b errors_re = Value capture"
    and seg: "segment = takeWhile (\<lambda>c. c \<noteq> CHR '','') capture"
    and fl: "fields = FieldsFunc segment f"
    and r: "CheckReturnCode 422 ?b = Exit (''HTTP request failed: ['' @ Join fields '' '' @ '']'')"
    by blast
  have \<open>ScrapeErrorMessage ?b errors_re = Value ''{"name":"is required","age":"must be positive"''\<close>
    by code_simp
  then have \<open>capture = ''{"name":"is required","age":"must be positive"''\<close> using s by simp
  then have \<open>segment = ''{"name":"is required"''\<close> using seg by simp
  moreover have \<open>FieldsFunc ''{"name":"is required"'' f = [''name'', ''is required'']\<close>
    by code_simp
  ultimately have "fields = [''name'', ''is required'']" using fl by simp
  then have "CheckReturnCode 422 ?b = Exit ''HTTP request failed: [name is required]''"
    using r by simp
  then show ?thesis by (intro conjI d b c)
qed

text \<open>
  C4. \<open>CheckReturnCode\<close> ends the process exactly when the status is 300 or more. Below
  300 it returns and the body is as it was; from 300 on it always ends with the report
  \<open>HTTP request failed: [message]\<close>, the message being the one lines 37 to 63 compute.
\<close>

theorem CheckReturnCode_fatal_iff:
  "((\<exists>report. CheckReturnCode res mesg = Exit report) \<longleftrightarrow> 300 \<le> res) \<and>
   (res < 300 \<longrightarrow> CheckReturnCode res mesg = Value mesg) \<and>
   (300 \<le> res \<longrightarrow>
      (\<exists>message. CheckReturnCode_message mesg = Value message \<and>
         CheckReturnCode res mesg = Exit (''HTTP request failed: ['' @ message @ '']'')))"
proof -
  obtain message where m: "CheckReturnCode_message mesg = Value message"
    using message_Value by blast
  have a: "300 \<le> res \<Longrightarrow>
             CheckReturnCode res mesg = Exit (''HTTP request failed: ['' @ message @ '']'')"
    using m fatal_report by blast
  have b: "res < 300 \<Longrightarrow> CheckReturnCode res mesg = Value mesg"
    by (simp add: CheckReturnCode_def)
  have "(\<exists>report. CheckReturnCode res mesg = Exit report) \<longleftrightarrow> 300 \<le> res"
  proof (cases "300 \<le> res")
    case True
    then show ?thesis using a by simp
  next
    case False
    then show ?thesis using b by simp
  qed
  then show ?thesis using a b m by blast
qed

theorem CheckReturnCode_fatal_iff_witness:
  \<open>CheckReturnCode 200 ''{"id":"5"}'' = Value ''{"id":"5"}'' \<and>
   CheckReturnCode 299 ''<html><title>x</title></html>'' = Value ''<html><title>x</title></html>'' \<and>
   CheckReturnCode 300 ''plain text failure'' = Exit ''HTTP request failed: [plain text failure]''\<close>
proof -
  have a: \<open>CheckReturnCode 200 ''{"id":"5"}'' = Value ''{"id":"5"}''\<close>
    using CheckReturnCode_fatal_iff [of 200 \<open>''{"id":"5"}''\<close>] by simp
  have b: "CheckReturnCode 299 ''<html><title>x</title></html>'' =
             Value ''<html><title>x</title></html>''"
    using CheckReturnCode_fatal_iff [of 299 "''<html><title>x</title></html>''"] by simp
  from CheckReturnCode_fatal_iff [of 300 "''plain text failure''"] obtain message where
    m: "CheckReturnCode_message ''plain text failure'' = Value message"
    and r: "CheckReturnCode 300 ''plain text failure'' =
              Exit (''HTTP request failed: ['' @ message @ '']'')"
    by auto
  have "CheckReturnCode_message ''plain text failure'' = Value ''plain text failure''"
    by code_simp
  then have "message = ''plain text failure''" using m by simp
  then have c: "CheckReturnCode 300 ''plain text failure'' =
                  Exit ''HTTP request failed: [plain text failure]''" using r by simp
  show ?thesis by (intro conjI a b c)
qed

lemma find_shape_None:
  assumes "star = StarLazy a \<or> star = StarGreedy a"
    and "\<not> Contains s l1 \<or> \<not> Contains s l2"
  shows "FindStringSubmatch (shape l1 star l2) s = None"
proof (cases "FindStringSubmatch (shape l1 star l2) s")
  case None
  then show ?thesis .
next
  case (Some m)
  from find_shape_sound [OF assms(1) Some] obtain pre g post where
    s: "s = pre @ l1 @ g @ l2 @ post" by blast
  have "Contains s l1" unfolding s by (rule Contains_append)
  moreover have "Contains ((pre @ l1 @ g) @ l2 @ post) l2" by (rule Contains_append)
  then have "Contains s l2" unfolding s by simp
  ultimately show ?thesis using assms(2) by blast
qed

lemma title_None:
  "\<not> Contains mesg ''<title>'' \<or> \<not> Contains mesg ''</title>'' \<Longrightarrow>
     FindStringSubmatch title_re mesg = None"
  unfolding title_re_shape by (rule find_shape_None [where a = AnyNotNL]) simp_all

lemma generic_html:
  assumes "300 \<le> res" and \<open>Contains mesg ''<html>''\<close>
    and "FindStringSubmatch title_re mesg = None"
  shows "CheckReturnCode res mesg = Exit ''HTTP request failed: [Error executing operation]''"
proof -
  have "CheckReturnCode_message mesg = Value ''Error executing operation''"
    using assms(2,3) message_html ScrapeErrorMessage_None by simp
  from fatal_report [OF assms(1) this] show ?thesis by simp
qed

lemma generic_errors:
  assumes "300 \<le> res" and \<open>\<not> Contains mesg ''<html>''\<close> and \<open>Contains mesg ''{"errors":{''\<close>
    and "FindStringSubmatch errors_re mesg = None"
  shows "CheckReturnCode res mesg = Exit ''HTTP request failed: [Error executing operation]''"
proof -
  have "ScrapeErrorMessage mesg errors_re = Value ''Error executing operation''"
    using assms(4) by (rule ScrapeErrorMessage_None)
  from message_errors [OF assms(2,3) this]
  have "CheckReturnCode_message mesg = Value ''Error executing operation''"
    by (simp only: generic_fields)
  from fatal_report [OF assms(1) this] show ?thesis by simp
qed

lemma generic_error:
  assumes "300 \<le> res" and \<open>\<not> Contains mesg ''<html>''\<close> and \<open>\<not> Contains mesg ''{"errors":{''\<close>
    and \<open>Contains mesg ''{"error":''\<close> and "FindStringSubmatch error_re mesg = None"
  shows "CheckReturnCode res mesg = Exit ''HTTP request failed: [Error executing operation]''"
proof -
  have "CheckReturnCode_message mesg = Value ''Error executing operation''"
    using message_error [OF assms(2,3,4)] ScrapeErrorMessage_None [OF assms(5)] by simp
  from fatal_report [OF assms(1) this] show ?thesis by simp
qed

lemma ScrapeErrorMessage_short:
  "FindStringSubmatch re mesg = None \<or>
     (\<exists>scrapped. FindStringSubmatch re mesg = Some scrapped \<and> length scrapped < 2) \<Longrightarrow>
     ScrapeErrorMessage mesg re = Value ''Error executing operation''"
  by (auto simp: ScrapeErrorMessage_def)

text \<open>
  C3. In each of the three cases that use an expression, a body the expression does not
  match gives the report with the generic text \<open>Error executing operation\<close>; so does an
  HTML body without a \<open><title>\<close> or without a \<open></title>\<close>. \<open>ScrapeErrorMessage\<close> gives
  the generic text whenever the match is \<open>nil\<close> or has fewer than two elements, and
  \<open>CheckReturnCode\<close> never panics: with a status of 300 or more it always reaches its
  report.
\<close>

theorem CheckReturnCode_no_match_generic:
  assumes "300 \<le> res"
  shows \<open>(Contains mesg ''<html>'' \<and> FindStringSubmatch title_re mesg = None \<longrightarrow>
            CheckReturnCode res mesg = Exit ''HTTP request failed: [Error executing operation]'') \<and>
         (\<not> Contains mesg ''<html>'' \<and> Contains mesg ''{"errors":{'' \<and>
            FindStringSubmatch errors_re mesg = None \<longrightarrow>
            CheckReturnCode res mesg = Exit ''HTTP request failed: [Error executing operation]'') \<and>
         (\<not> Contains mesg ''<html>'' \<and> \<not> Contains mesg ''{"errors":{'' \<and>
            Contains mesg ''{"error":'' \<and> FindStringSubmatch error_re mesg = None \<longrightarrow>
            CheckReturnCode res mesg = Exit ''HTTP request failed: [Error executing operation]'') \<and>
         (Contains mesg ''<html>'' \<and>
            (\<not> Contains mesg ''<title>'' \<or> \<not> Contains mesg ''</title>'') \<longrightarrow>
            CheckReturnCode res mesg = Exit ''HTTP request failed: [Error executing operation]'') \<and>
         (\<forall>re. FindStringSubmatch re mesg = None \<or>
                (\<exists>scrapped. FindStringSubmatch re mesg = Some scrapped \<and> length scrapped < 2) \<longrightarrow>
                ScrapeErrorMessage mesg re = Value ''Error executing operation'') \<and>
         (\<exists>message. CheckReturnCode res mesg = Exit (''HTTP request failed: ['' @ message @ '']''))\<close>
proof (intro conjI impI allI)
  assume \<open>Contains mesg ''<html>'' \<and> FindStringSubmatch title_re mesg = None\<close>
  then show "CheckReturnCode res mesg = Exit ''HTTP request failed: [Error executing operation]''"
    using generic_html [OF assms] by blast
next
  assume \<open>\<not> Contains mesg ''<html>'' \<and> Contains mesg ''{"errors":{'' \<and>
            FindStringSubmatch errors_re mesg = None\<close>
  then show "CheckReturnCode res mesg = Exit ''HTTP request failed: [Error executing operation]''"
    using generic_errors [OF assms] by blast
next
  assume \<open>\<not> Contains mesg ''<html>'' \<and> \<not> Contains mesg ''{"errors":{'' \<and>
            Contains mesg ''{"error":'' \<and> FindStringSubmatch error_re mesg = None\<close>
  then show "CheckReturnCode res mesg = Exit ''HTTP request failed: [Error executing operation]''"
    using generic_error [OF assms] by blast
next
  assume h: \<open>Contains mesg ''<html>'' \<and>
            (\<not> Contains mesg ''<title>'' \<or> \<not> Contains mesg ''</title>'')\<close>
  then have "FindStringSubmatch title_re mesg = None" using title_None by blast
  then show "CheckReturnCode res mesg = Exit ''HTTP request failed: [Error executing operation]''"
    using h generic_html [OF assms] by blast
next
  fix re
  assume "FindStringSubmatch re mesg = None \<or>
                (\<exists>scrapped. FindStringSubmatch re mesg = Some scrapped \<and> length scrapped < 2)"
  then show "ScrapeErrorMessage mesg re = Value ''Error executing operation''"
    by (rule ScrapeErrorMessage_short)
next
  obtain message where "CheckReturnCode_message mesg = Value message"
    using message_Value by blast
  from fatal_report [OF assms this]
  show "\<exists>message. CheckReturnCode res mesg = Exit (''HTTP request failed: ['' @ message @ '']'')"
    by blast
qed

theorem CheckReturnCode_no_match_generic_witness:
  \<open>(300::int) \<le> 500 \<and>
   Contains ''<html><body>oops</body></html>'' ''<html>'' \<and>
   \<not> Contains ''<html><body>oops</body></html>'' ''<title>'' \<and>
   FindStringSubmatch title_re ''<html><body>oops</body></html>'' = None \<and>
   CheckReturnCode 500 ''<html><body>oops</body></html>'' =
     Exit ''HTTP request failed: [Error executing operation]'' \<and>
   \<not> Contains ''{"errors":{"name":'' ''<html>'' \<and>
   Contains ''{"errors":{"name":'' ''{"errors":{'' \<and>
   FindStringSubmatch errors_re ''{"errors":{"name":'' = None \<and>
   CheckReturnCode 500 ''{"errors":{"name":'' =
     Exit ''HTTP request failed: [Error executing operation]'' \<and>
   \<not> Contains ''{"error":42}'' ''<html>'' \<and>
   \<not> Contains ''{"error":42}'' ''{"errors":{'' \<and>
   Contains ''{"error":42}'' ''{"error":'' \<and>
   FindStringSubmatch error_re ''{"error":42}'' = None \<and>
   CheckReturnCode 500 ''{"error":42}'' =
     Exit ''HTTP request failed: [Error executing operation]''\<close>
proof -
  have c: "(300::int) \<le> 500" by simp
  have a1: \<open>Contains ''<html><body>oops</body></html>'' ''<html>''\<close> by code_simp
  have a2: \<open>\<not> Contains ''<html><body>oops</body></html>'' ''<title>''\<close> by code_simp
  have a3: \<open>FindStringSubmatch title_re ''<html><body>oops</body></html>'' = None\<close>
    by code_simp
  have b1: \<open>\<not> Contains ''{"errors":{"name":'' ''<html>''\<close> by code_simp
  have b2: \<open>Contains ''{"errors":{"name":'' ''{"errors":{''\<close> by code_simp
  have b3: \<open>FindStringSubmatch errors_re ''{"errors":{"name":'' = None\<close> by code_simp
  have d1: \<open>\<not> Contains ''{"error":42}'' ''<html>''\<close> by code_simp
  have d2: \<open>\<not> Contains ''{"error":42}'' ''{"errors":{''\<close> by code_simp
  have d3: \<open>Contains ''{"error":42}'' ''{"error":''\<close> by code_simp
  have d4: \<open>FindStringSubmatch error_re ''{"error":42}'' = None\<close> by code_simp
  note t1 = CheckReturnCode_no_match_generic [OF c, of "''<html><body>oops</body></html>''"]
  note t2 = CheckReturnCode_no_match_generic [OF c, of \<open>''{"errors":{"name":''\<close>]
  note t3 = CheckReturnCode_no_match_generic [OF c, of \<open>''{"error":42}''\<close>]
  have r1: \<open>CheckReturnCode 500 ''<html><body>oops</body></html>'' =
     Exit ''HTTP request failed: [Error executing operation]''\<close>
    using t1 [THEN conjunct1] a1 a3 by (simp only: simp_thms)
  have r2: \<open>CheckReturnCode 500 ''{"errors":{"name":'' =
     Exit ''HTTP request failed: [Error executing operation]''\<close>
    using t2 [THEN conjunct2, THEN conjunct1] b1 b2 b3 by (simp only: simp_thms)
  have r3: \<open>CheckReturnCode 500 ''{"error":42}'' =
     Exit ''HTTP request failed: [Error executing operation]''\<close>
    using t3 [THEN conjunct2, THEN conjunct2, THEN conjunct1] d1 d2 d3 d4
    by (simp only: simp_thms)
  show ?thesis
    by (intro conjI c a1 a2 a3 b1 b2 b3 d1 d2 d3 d4 r1 r2 r3)
qed

text \<open>
  C10. A body that contains \<open><html>\<close> and whose first \<open><title>\<close> is at once closed by
  \<open></title>\<close>: the expression matches and captures the empty string, the message is
  empty and the report is \<open>HTTP request failed: []\<close>, not the generic one. For every
  body, an empty capture gives the empty message, and the generic text comes out only
  without a match (or when the title itself is that text).
\<close>

theorem CheckReturnCode_empty_title:
  assumes "300 \<le> res" and \<open>Contains mesg ''<html>''\<close>
    and "mesg = pre @ ''<title></title>'' @ post"
    and "\<not> Contains (pre @ ''<title'') ''<title>''"
  shows "FindStringSubmatch title_re mesg = Some [''<title></title>'', []] \<and>
         ScrapeErrorMessage mesg title_re = Value [] \<and>
         CheckReturnCode res mesg = Exit ''HTTP request failed: []'' \<and>
         CheckReturnCode res mesg \<noteq> Exit ''HTTP request failed: [Error executing operation]'' \<and>
         (\<forall>body whole. FindStringSubmatch title_re body = Some [whole, []] \<longrightarrow>
            ScrapeErrorMessage body title_re = Value []) \<and>
         (\<forall>body. ScrapeErrorMessage body title_re = Value ''Error executing operation'' \<longrightarrow>
            FindStringSubmatch title_re body = None \<or>
            (\<exists>whole. FindStringSubmatch title_re body = Some [whole, ''Error executing operation'']))"
proof -
  have np: "\<not> Contains (pre @ butlast ''<title>'') ''<title>''" using assms(4) by simp
  have nc: "\<not> Contains ([] @ butlast ''</title>'') ''</title>''" by code_simp
  have "FindStringSubmatch (shape ''<title>'' (StarLazy AnyNotNL) ''</title>'')
          (pre @ ''<title>'' @ [] @ ''</title>'' @ post) = Some [''<title>'' @ [] @ ''</title>'', []]"
    using np _ nc by (rule find_shape_lazy) simp
  then have f: "FindStringSubmatch title_re mesg = Some [''<title></title>'', []]"
    using assms(3) by (simp add: title_re_shape)
  then have s: "ScrapeErrorMessage mesg title_re = Value []"
    by (rule ScrapeErrorMessage_Some)
  then have "CheckReturnCode_message mesg = Value []"
    using assms(2) message_html by simp
  from fatal_report [OF assms(1) this]
  have r: "CheckReturnCode res mesg = Exit ''HTTP request failed: []''" by simp
  then have n: "CheckReturnCode res mesg \<noteq> Exit ''HTTP request failed: [Error executing operation]''"
    by simp
  have e: "\<forall>body whole. FindStringSubmatch title_re body = Some [whole, []] \<longrightarrow>
            ScrapeErrorMessage body title_re = Value []"
    using ScrapeErrorMessage_Some by blast
  have g: "\<forall>body. ScrapeErrorMessage body title_re = Value ''Error executing operation'' \<longrightarrow>
            FindStringSubmatch title_re body = None \<or>
            (\<exists>whole. FindStringSubmatch title_re body = Some [whole, ''Error executing operation''])"
  proof (intro allI impI)
    fix body
    assume v: "ScrapeErrorMessage body title_re = Value ''Error executing operation''"
    show "FindStringSubmatch title_re body = None \<or>
            (\<exists>whole. FindStringSubmatch title_re body = Some [whole, ''Error executing operation''])"
    proof (cases "FindStringSubmatch title_re body")
      case None
      then show ?thesis by simp
    next
      case (Some m)
      then have "FindStringSubmatch (shape ''<title>'' (StarLazy AnyNotNL) ''</title>'') body = Some m"
        by (simp only: title_re_shape)
      from find_shape_sound [OF _ this] obtain whole t where m: "m = [whole, t]"
        by blast
      then have "ScrapeErrorMessage body title_re = Value t"
        using Some ScrapeErrorMessage_Some by blast
      then have "t = ''Error executing operation''" using v by simp
      then show ?thesis using Some m by blast
    qed
  qed
  show ?thesis by (intro conjI f s r n e g)
qed

theorem CheckReturnCode_empty_title_witness:
  \<open>(300::int) \<le> 500 \<and>
   Contains ''<html><head><title></title></head></html>'' ''<html>'' \<and>
   ''<html><head><title></title></head></html>'' =
     ''<html><head>'' @ ''<title></title>'' @ ''</head></html>'' \<and>
   \<not> Contains (''<html><head>'' @ ''<title'') ''<title>'' \<and>
   CheckReturnCode 500 ''<html><head><title></title></head></html>'' =
     Exit ''HTTP request failed: []''\<close>
proof -
  have c: "(300::int) \<le> 500" by simp
  have a: \<open>Contains ''<html><head><title></title></head></html>'' ''<html>''\<close> by code_simp
  have b: "''<html><head><title></title></head></html>'' =
     ''<html><head>'' @ ''<title></title>'' @ ''</head></html>''" by simp
  have d: "\<not> Contains (''<html><head>'' @ ''<title'') ''<title>''" by code_simp
  have "CheckReturnCode 500 ''<html><head><title></title></head></html>'' =
     Exit ''HTTP request failed: []''"
    using CheckReturnCode_empty_title [OF c a b d] by (simp only: simp_thms)
  then show ?thesis by (intro conjI c a b d)
qed

text \<open>
  C8 as stated fails. The specification takes the value after \<^verbatim>\<open>{"error":"\<close> up to the
  next quote, which is \<open>quoted_error_value\<close>. The expression of the source asks for a
  quote followed by a closing brace: on a body whose error is not the last member there
  is no match and the message is the generic text, and a quote inside the value does
  not end it.
\<close>

theorem single_error_rule_counterexample:
  \<open>\<not> Contains ''{"error":"denied","code":403}'' ''<html>'' \<and>
   \<not> Contains ''{"error":"denied","code":403}'' ''{"errors":{'' \<and>
   Contains ''{"error":"denied","code":403}'' ''{"error":'' \<and>
   quoted_error_value ''{"error":"denied","code":403}'' = Some ''denied'' \<and>
   CheckReturnCode 403 ''{"error":"denied","code":403}'' =
     Exit ''HTTP request failed: [Error executing operation]'' \<and>
   CheckReturnCode 403 ''{"error":"denied","code":403}'' \<noteq>
     Exit ''HTTP request failed: [denied]'' \<and>
   \<not> Contains ''{"error":"say "hi" now"}'' ''<html>'' \<and>
   \<not> Contains ''{"error":"say "hi" now"}'' ''{"errors":{'' \<and>
   Contains ''{"error":"say "hi" now"}'' ''{"error":'' \<and>
   quoted_error_value ''{"error":"say "hi" now"}'' = Some ''say '' \<and>
   CheckReturnCode 400 ''{"error":"say "hi" now"}'' =
     Exit ''HTTP request failed: [say "hi" now]''\<close>
  by code_simp

text \<open>
  C8, amended. For a body that contains the error marker and neither \<open><html>\<close> nor the
  errors marker, the message is what \<open>ScrapeErrorMessage\<close> takes with the error
  expression: the generic text without a match, else a text that follows
  \<^verbatim>\<open>{"error":"\<close> and runs, on one line, up to the next \<^verbatim>\<open>"}\<close>. When the first
  \<^verbatim>\<open>{"error":"\<close> of the body is followed on its line by \<^verbatim>\<open>"}\<close>, the message is the
  text between the two.
\<close>

theorem CheckReturnCode_single_error_rule:
  assumes "300 \<le> res" and \<open>\<not> Contains mesg ''<html>''\<close>
    and \<open>\<not> Contains mesg ''{"errors":{''\<close> and \<open>Contains mesg ''{"error":''\<close>
  shows \<open>\<exists>message.
     CheckReturnCode res mesg = Exit (''HTTP request failed: ['' @ message @ '']'') \<and>
     ScrapeErrorMessage mesg error_re = Value message \<and>
     (FindStringSubmatch error_re mesg = None \<and> message = ''Error executing operation'' \<or>
      (\<exists>pre post. mesg = pre @ ''{"error":"'' @ message @ ''"}'' @ post \<and>
         CHR 0x0A \<notin> set message \<and> \<not> Contains (message @ ''"'') ''"}'')) \<and>
     (\<forall>pre v post.
        mesg = pre @ ''{"error":"'' @ v @ ''"}'' @ post \<and>
        \<not> Contains (pre @ ''{"error":'') ''{"error":"'' \<and> CHR 0x0A \<notin> set v \<and>
        \<not> Contains (v @ ''"'') ''"}'' \<longrightarrow> message = v)\<close>
proof -
  obtain message where m: "CheckReturnCode_message mesg = Value message"
    using message_Value by blast
  have report: "CheckReturnCode res mesg = Exit (''HTTP request failed: ['' @ message @ '']'')"
    using fatal_report [OF assms(1) m] .
  have s: "ScrapeErrorMessage mesg error_re = Value message"
    using message_error [OF assms(2,3,4)] m by simp
  then have s': \<open>ScrapeErrorMessage mesg (shape ''{"error":"'' (StarLazy AnyNotNL) ''"}'') = Value message\<close>
    by (simp only: error_re_shape)
  have cases: \<open>FindStringSubmatch error_re mesg = None \<and> message = ''Error executing operation'' \<or>
      (\<exists>pre post. mesg = pre @ ''{"error":"'' @ message @ ''"}'' @ post \<and>
         CHR 0x0A \<notin> set message \<and> \<not> Contains (message @ ''"'') ''"}'')\<close>
    using Scrape_dot_cases [OF _ s'] by (simp add: error_re_shape)
  have first: \<open>\<forall>pre v post.
        mesg = pre @ ''{"error":"'' @ v @ ''"}'' @ post \<and>
        \<not> Contains (pre @ ''{"error":'') ''{"error":"'' \<and> CHR 0x0A \<notin> set v \<and>
        \<not> Contains (v @ ''"'') ''"}'' \<longrightarrow> message = v\<close>
  proof (intro allI impI)
    fix pre v post
    assume \<open>mesg = pre @ ''{"error":"'' @ v @ ''"}'' @ post \<and>
        \<not> Contains (pre @ ''{"error":'') ''{"error":"'' \<and> CHR 0x0A \<notin> set v \<and>
        \<not> Contains (v @ ''"'') ''"}''\<close>
    then have h2: \<open>mesg = pre @ ''{"error":"'' @ v @ ''"}'' @ post\<close>
      and h3: \<open>\<not> Contains (pre @ butlast ''{"error":"'') ''{"error":"''\<close>
      and h4: "CHR 0x0A \<notin> set v"
      and h5: \<open>\<not> Contains (v @ butlast ''"}'') ''"}''\<close>
      by auto
    have \<open>ScrapeErrorMessage (pre @ ''{"error":"'' @ v @ ''"}'' @ post)
            (shape ''{"error":"'' (StarLazy AnyNotNL) ''"}'') = Value v\<close>
      using h3 h4 h5 by (rule Scrape_dot_first)
    then have "ScrapeErrorMessage mesg error_re = Value v"
      using h2 by (simp only: error_re_shape)
    then show "message = v" using s by simp
  qed
  show ?thesis using report s cases first by (intro exI [of _ message] conjI)
qed

text \<open>
  The body of the specification: the message is \<open>invalid token\<close>.
\<close>

theorem CheckReturnCode_single_error_rule_witness:
  \<open>(300::int) \<le> 401 \<and>
   \<not> Contains ''{"error":"invalid token"}'' ''<html>'' \<and>
   \<not> Contains ''{"error":"invalid token"}'' ''{"errors":{'' \<and>
   Contains ''{"error":"invalid token"}'' ''{"error":'' \<and>
   CheckReturnCode 401 ''{"error":"invalid token"}'' =
     Exit ''HTTP request failed: [invalid token]''\<close>
proof -
  have c: "(300::int) \<le> 401" by simp
  have a1: \<open>\<not> Contains ''{"error":"invalid token"}'' ''<html>''\<close> by code_simp
  have a2: \<open>\<not> Contains ''{"error":"invalid token"}'' ''{"errors":{''\<close> by code_simp
  have a3: \<open>Contains ''{"error":"invalid token"}'' ''{"error":''\<close> by code_simp
  from CheckReturnCode_single_error_rule [OF c a1 a2 a3] obtain message where
    r: \<open>CheckReturnCode 401 ''{"error":"invalid token"}'' =
          Exit (''HTTP request failed: ['' @ message @ '']'')\<close>
    and f: \<open>\<forall>pre v post.
        ''{"error":"invalid token"}'' = pre @ ''{"error":"'' @ v @ ''"}'' @ post \<and>
        \<not> Contains (pre @ ''{"error":'') ''{"error":"'' \<and> CHR 0x0A \<notin> set v \<and>
        \<not> Contains (v @ ''"'') ''"}'' \<longrightarrow> message = v\<close>
    by blast
  have d1: \<open>''{"error":"invalid token"}'' = [] @ ''{"error":"'' @ ''invalid token'' @ ''"}'' @ []\<close>
    by simp
  have d2: \<open>\<not> Contains ([] @ ''{"error":'') ''{"error":"''\<close> by code_simp
  have d3: "CHR 0x0A \<notin> set ''invalid token''" by simp
  have d4: \<open>\<not> Contains (''invalid token'' @ ''"'') ''"}''\<close> by code_simp
  have "message = ''invalid token''"
    using f [rule_format, of "[]" "''invalid token''" "[]"] d1 d2 d3 d4 by blast
  then have \<open>CheckReturnCode 401 ''{"error":"invalid token"}'' =
     Exit ''HTTP request failed: [invalid token]''\<close> using r by simp
  then show ?thesis by (intro conjI c a1 a2 a3)
qed

section \<open>The claims on the webservice package\<close>




text \<open>
  C7. When the client cannot complete the exchange, \<open>Get\<close> returns a \<open>nil\<close> body and
  the error, \<open>Post\<close> returns the error, and \<open>GetFile\<close> returns the empty path and the
  error and leaves the file system as it was: no file is created or written.
\<close>

theorem transport_error_only:
  "(client_Get w (ApiEndpoint w @ endpoint) = Inl err \<longrightarrow>
      Get w endpoint = (None, Some err) \<and>
      GetFile w fs endpoint directoryPath = (Value ([], Some err), fs)) \<and>
   (client_Post w (ApiEndpoint w @ endpoint) ''application/json'' json = Inl err \<longrightarrow>
      Post w endpoint json = Some err)"
  by (simp add: Post_def Get_def GetFile_def)

theorem transport_error_only_witness:
  "client_Get (unreachable (Error ''connection refused'')) (''https://api'' @ ''/v1/file'') =
     Inl (Error ''connection refused'') \<and>
   Get (unreachable (Error ''connection refused'')) ''/v1/file'' =
     (None, Some (Error ''connection refused'')) \<and>
   GetFile (unreachable (Error ''connection refused'')) disk ''/v1/file'' ''/tmp/out'' =
     (Value ([], Some (Error ''connection refused'')), disk) \<and>
   Post (unreachable (Error ''connection refused'')) ''/v1/file'' ''{}'' =
     Some (Error ''connection refused'')"
proof -
  let ?w = "unreachable (Error ''connection refused'')"
  have e: "ApiEndpoint ?w = ''https://api''" by (simp add: unreachable_def)
  have a: "client_Get ?w (''https://api'' @ ''/v1/file'') = Inl (Error ''connection refused'')"
    by (simp add: unreachable_def)
  have p: "client_Post ?w (''https://api'' @ ''/v1/file'') ''application/json'' ''{}'' =
             Inl (Error ''connection refused'')"
    by (simp add: unreachable_def)
  note t = transport_error_only [of ?w "''/v1/file''" "Error ''connection refused''" disk
      "''/tmp/out''" "''{}''"]
  have g: "Get ?w ''/v1/file'' = (None, Some (Error ''connection refused'')) \<and>
      GetFile ?w disk ''/v1/file'' ''/tmp/out'' = (Value ([], Some (Error ''connection refused'')), disk)"
    using t [THEN conjunct1] a unfolding e by (simp only: simp_thms)
  have q: "Post ?w ''/v1/file'' ''{}'' = Some (Error ''connection refused'')"
    using t [THEN conjunct2] p unfolding e by (simp only: simp_thms)
  show ?thesis using a g q by simp
qed

lemma cd_sound:
  assumes "FindStringSubmatch contentDispositionRegex h = Some m"
  shows \<open>\<exists>pre g post. h = pre @ ''filename="'' @ g @ ''"'' @ post \<and> CHR 0x22 \<notin> set g \<and>
           m = [''filename="'' @ g @ ''"'', g]\<close>
proof -
  have \<open>FindStringSubmatch (shape ''filename="'' (StarGreedy (NoneOf ''"'')) ''"'') h = Some m\<close>
    using assms by (simp only: cd_shape)
  from find_shape_sound [OF _ this, of "NoneOf [CHR 0x22]"] obtain pre g post where
    \<open>h = pre @ ''filename="'' @ g @ ''"'' @ post\<close> \<open>\<forall>x\<in>set g. accepts (NoneOf ''"'') x\<close>
    \<open>m = [''filename="'' @ g @ ''"'', g]\<close> by auto
  moreover from this have "CHR 0x22 \<notin> set g" by auto
  ultimately show ?thesis by blast
qed

lemma cd_first:
  assumes \<open>\<not> Contains (pre @ ''filename='') ''filename="''\<close> and "CHR 0x22 \<notin> set name"
  shows \<open>FindStringSubmatch contentDispositionRegex (pre @ ''filename="'' @ name @ ''"'' @ post) =
           Some [''filename="'' @ name @ ''"'', name]\<close>
proof -
  have a: \<open>\<not> Contains (pre @ butlast ''filename="'') ''filename="''\<close> using assms(1) by simp
  have b: \<open>\<forall>x\<in>set name. accepts (NoneOf ''"'') x\<close> using assms(2) by auto
  have c: \<open>''"'' \<noteq> []\<close> by simp
  have d: \<open>\<not> accepts (NoneOf ''"'') (hd ''"'')\<close> by simp
  show ?thesis unfolding cd_shape using a b c d by (rule find_shape_greedy)
qed

lemma GetFile_found:
  assumes "client_Get w (ApiEndpoint w @ endpoint) = Inr response"
    and "FindStringSubmatch contentDispositionRegex
           (Header_Get (Header response) ''Content-Disposition'') = Some [whole, fileName]"
  shows "GetFile w fs endpoint directoryPath =
           (case Create fs (directoryPath @ ''/'' @ fileName) of
              (Some err, fs1) \<Rightarrow> (Value ([], Some err), fs1)
            | (None, fs1) \<Rightarrow>
                (case Copy fs1 (directoryPath @ ''/'' @ fileName) response of
                   ((n, Some err), fs2) \<Rightarrow> (Value ([], Some err), fs2)
                 | ((n, None), fs2) \<Rightarrow> (Value (directoryPath @ ''/'' @ fileName, None), fs2)))"
  using assms by (simp add: GetFile_def index_def Let_def split: prod.splits option.splits)

lemma GetFile_not_found:
  assumes "client_Get w (ApiEndpoint w @ endpoint) = Inr response"
    and "FindStringSubmatch contentDispositionRegex
           (Header_Get (Header response) ''Content-Disposition'') = None"
  shows "GetFile w fs endpoint directoryPath = (Panic ''index out of range'', fs)"
  using assms by (simp add: GetFile_def index_def)

lemma Copy_success:
  assumes "Copy fs name response = ((n, None), fs2)"
  shows "files fs2 name = Some (Body response) \<and> BodyErr response = None \<and>
         n = length (Body response) \<and> (\<forall>p. p \<noteq> name \<longrightarrow> files fs2 p = files fs p)"
  using assms by (auto simp: Copy_def split: option.splits prod.splits if_splits)

lemma GetFile_success_sound:
  assumes "GetFile w fs endpoint directoryPath = (Value (path, None), fs')"
  shows \<open>\<exists>response before fileName rest.
           client_Get w (ApiEndpoint w @ endpoint) = Inr response \<and>
           Header_Get (Header response) ''Content-Disposition'' =
             before @ ''filename="'' @ fileName @ ''"'' @ rest \<and>
           CHR 0x22 \<notin> set fileName \<and>
           path = directoryPath @ ''/'' @ fileName \<and>
           files fs' path = Some (Body response) \<and> BodyErr response = None\<close>
proof (cases "client_Get w (ApiEndpoint w @ endpoint)")
  case (Inl err)
  then show ?thesis using assms by (simp add: GetFile_def)
next
  case (Inr response)
  let ?h = "Header_Get (Header response) ''Content-Disposition''"
  show ?thesis
  proof (cases "FindStringSubmatch contentDispositionRegex ?h")
    case None
    then show ?thesis using assms GetFile_not_found [OF Inr None] by simp
  next
    case (Some m)
    from cd_sound [OF Some] obtain before g rest where
      h: \<open>?h = before @ ''filename="'' @ g @ ''"'' @ rest\<close> and q: "CHR 0x22 \<notin> set g"
      and m: \<open>m = [''filename="'' @ g @ ''"'', g]\<close> by blast
    let ?name = "directoryPath @ ''/'' @ g"
    have found: \<open>FindStringSubmatch contentDispositionRegex ?h = Some [''filename="'' @ g @ ''"'', g]\<close>
      using Some m by simp
    note gf = GetFile_found [OF Inr found, of fs directoryPath]
    obtain ce fs1 where cr: "Create fs ?name = (ce, fs1)" by (cases "Create fs ?name") auto
    show ?thesis
    proof (cases ce)
      case (Some err)
      then show ?thesis using assms gf cr by simp
    next
      case None
      obtain n we fs2 where cp: "Copy fs1 ?name response = ((n, we), fs2)"
        by (cases "Copy fs1 ?name response") auto
      show ?thesis
      proof (cases we)
        case (Some err)
        then show ?thesis using assms gf cr None cp by simp
      next
        case we: None
        have "GetFile w fs endpoint directoryPath = (Value (?name, None), fs2)"
          using gf cr None cp we by simp
        then have p: "path = ?name" and f: "fs' = fs2" using assms by simp_all
        have "files fs2 ?name = Some (Body response) \<and> BodyErr response = None"
          using Copy_success [of fs1 ?name response n fs2] cp we by simp
        then show ?thesis using Inr h q p f by blast
      qed
    qed
  qed
qed

lemma GetFile_success_first:
  assumes "client_Get w (ApiEndpoint w @ endpoint) = Inr response"
    and \<open>Header_Get (Header response) ''Content-Disposition'' =
           pre @ ''filename="'' @ name @ ''"'' @ post\<close>
    and \<open>\<not> Contains (pre @ ''filename='') ''filename="''\<close> and "CHR 0x22 \<notin> set name"
    and "create_err fs (directoryPath @ ''/'' @ name) = None"
    and "write_err fs (directoryPath @ ''/'' @ name) = None"
    and "BodyErr response = None"
  shows "GetFile w fs endpoint directoryPath =
           (Value (directoryPath @ ''/'' @ name, None),
            fs\<lparr>files := (files fs)(directoryPath @ ''/'' @ name \<mapsto> Body response)\<rparr>)"
proof -
  have \<open>FindStringSubmatch contentDispositionRegex
          (Header_Get (Header response) ''Content-Disposition'') =
        Some [''filename="'' @ name @ ''"'', name]\<close>
    unfolding assms(2) using assms(3,4) by (rule cd_first)
  from GetFile_found [OF assms(1) this, of fs directoryPath]
  show ?thesis using assms(5,6,7) by (simp add: Create_def Copy_def)
qed

text \<open>
  C9. Whenever \<open>GetFile\<close> returns a path and a \<open>nil\<close> error, the path is the directory,
  a slash and the file name that stands in quotes after \<open>filename=\<close> in the
  \<open>Content-Disposition\<close> header, and the file at that path holds exactly the body of
  the response. Conversely, when the first \<open>filename="\<close> of the header is followed by
  a name and a quote, and neither \<open>os.Create\<close>, the writes nor the reads fail, \<open>GetFile\<close>
  returns that path and leaves the body in that file.
\<close>

theorem GetFile_success:
  \<open>(GetFile w fs endpoint directoryPath = (Value (path, None), fs') \<longrightarrow>
      (\<exists>response before fileName rest.
         client_Get w (ApiEndpoint w @ endpoint) = Inr response \<and>
         Header_Get (Header response) ''Content-Disposition'' =
           before @ ''filename="'' @ fileName @ ''"'' @ rest \<and>
         CHR 0x22 \<notin> set fileName \<and>
         path = directoryPath @ ''/'' @ fileName \<and>
         files fs' path = Some (Body response) \<and> BodyErr response = None)) \<and>
   (client_Get w (ApiEndpoint w @ endpoint) = Inr response \<and>
    Header_Get (Header response) ''Content-Disposition'' =
      pre @ ''filename="'' @ name @ ''"'' @ post \<and>
    \<not> Contains (pre @ ''filename='') ''filename="'' \<and> CHR 0x22 \<notin> set name \<and>
    create_err fs (directoryPath @ ''/'' @ name) = None \<and>
    write_err fs (directoryPath @ ''/'' @ name) = None \<and> BodyErr response = None \<longrightarrow>
    GetFile w fs endpoint directoryPath =
      (Value (directoryPath @ ''/'' @ name, None),
       fs\<lparr>files := (files fs)(directoryPath @ ''/'' @ name \<mapsto> Body response)\<rparr>))\<close>
  using GetFile_success_sound [of w fs endpoint directoryPath path fs']
    GetFile_success_first [of w endpoint response pre name post fs directoryPath]
  by blast

text \<open>
  The download of the specification: \<open>/tmp/out/report.csv\<close> holds the body.
\<close>

theorem GetFile_success_witness:
  \<open>client_Get
     (server (reply 200 [(''Content-Disposition'', [''attachment; filename="report.csv"''])]
        ''id,total''))
     (''https://api'' @ ''/v1/report'') =
     Inr (reply 200 [(''Content-Disposition'', [''attachment; filename="report.csv"''])]
        ''id,total'') \<and>
   Header_Get
     (Header (reply 200 [(''Content-Disposition'', [''attachment; filename="report.csv"''])]
        ''id,total''))
     ''Content-Disposition'' = ''attachment; '' @ ''filename="'' @ ''report.csv'' @ ''"'' @ [] \<and>
   \<not> Contains (''attachment; '' @ ''filename='') ''filename="'' \<and>
   CHR 0x22 \<notin> set ''report.csv'' \<and>
   create_err disk (''/tmp/out'' @ ''/'' @ ''report.csv'') = None \<and>
   write_err disk (''/tmp/out'' @ ''/'' @ ''report.csv'') = None \<and>
   fst (GetFile
     (server (reply 200 [(''Content-Disposition'', [''attachment; filename="report.csv"''])]
        ''id,total''))
     disk ''/v1/report'' ''/tmp/out'') = Value (''/tmp/out/report.csv'', None) \<and>
   files (snd (GetFile
     (server (reply 200 [(''Content-Disposition'', [''attachment; filename="report.csv"''])]
        ''id,total''))
     disk ''/v1/report'' ''/tmp/out'')) ''/tmp/out/report.csv'' = Some ''id,total''\<close>
proof -
  let ?r = \<open>reply 200 [(''Content-Disposition'', [''attachment; filename="report.csv"''])]
        ''id,total''\<close>
  let ?name = "''/tmp/out'' @ ''/'' @ ''report.csv''"
  have e: "ApiEndpoint (server ?r) = ''https://api''" by (simp add: server_def)
  have a: "client_Get (server ?r) (''https://api'' @ ''/v1/report'') = Inr ?r"
    by (simp add: server_def)
  have h: \<open>Header_Get (Header ?r) ''Content-Disposition'' =
             ''attachment; '' @ ''filename="'' @ ''report.csv'' @ ''"'' @ []\<close>
    by (simp add: reply_def Header_Get_def)
  have n1: \<open>\<not> Contains (''attachment; '' @ ''filename='') ''filename="''\<close> by code_simp
  have n2: "CHR 0x22 \<notin> set ''report.csv''" by simp
  have c: "create_err disk ?name = None" by (simp add: disk_def)
  have w: "write_err disk ?name = None" by (simp add: disk_def)
  have b: "BodyErr ?r = None" by (simp add: reply_def)
  note t = GetFile_success [of "server ?r" disk "''/v1/report''" "''/tmp/out''" "[]" disk ?r
      "''attachment; ''" "''report.csv''" "[]", THEN conjunct2]
  have g: "GetFile (server ?r) disk ''/v1/report'' ''/tmp/out'' =
      (Value (?name, None), disk\<lparr>files := (files disk)(?name \<mapsto> Body ?r)\<rparr>)"
    using t a h n1 n2 c w b unfolding e by (simp only: simp_thms)
  have body: "Body ?r = ''id,total''" by (simp add: reply_def)
  have g1: "fst (GetFile (server ?r) disk ''/v1/report'' ''/tmp/out'') =
              Value (''/tmp/out/report.csv'', None)"
    unfolding g by simp
  have g2: "files (snd (GetFile (server ?r) disk ''/v1/report'' ''/tmp/out''))
              ''/tmp/out/report.csv'' = Some ''id,total''"
    unfolding g body by simp
  show ?thesis by (intro conjI a h n1 n2 c w g1 g2)
qed

text \<open>
  C6. The specification asks that a download whose \<open>Content-Disposition\<close> header is
  absent, or does not match the expression, fail with a checked error. \<open>GetFile\<close>
  indexes the result of \<open>FindStringSubmatch\<close> unchecked: without a match it panics, and
  it leaves the file system as it was.
\<close>

theorem GetFile_missing_filename_panics:
  assumes "client_Get w (ApiEndpoint w @ endpoint) = Inr response"
    and "Header response ''Content-Disposition'' = None \<or>
         FindStringSubmatch contentDispositionRegex
           (Header_Get (Header response) ''Content-Disposition'') = None"
  shows "GetFile w fs endpoint directoryPath = (Panic ''index out of range'', fs)"
proof -
  have "FindStringSubmatch contentDispositionRegex
           (Header_Get (Header response) ''Content-Disposition'') = None"
  proof (cases "Header response ''Content-Disposition''")
    case None
    then have "Header_Get (Header response) ''Content-Disposition'' = []"
      by (simp add: Header_Get_def)
    moreover have "FindStringSubmatch contentDispositionRegex [] = None" by code_simp
    ultimately show ?thesis by simp
  next
    case (Some vs)
    then show ?thesis using assms(2) by simp
  qed
  with assms(1) show ?thesis by (rule GetFile_not_found)
qed

theorem GetFile_missing_filename_panics_witness:
  "client_Get (server (reply 200 [] ''id,total'')) (''https://api'' @ ''/v1/report'') =
     Inr (reply 200 [] ''id,total'') \<and>
   Header (reply 200 [] ''id,total'') ''Content-Disposition'' = None \<and>
   GetFile (server (reply 200 [] ''id,total'')) disk ''/v1/report'' ''/tmp/out'' =
     (Panic ''index out of range'', disk)"
proof -
  let ?r = "reply 200 [] ''id,total''"
  have e: "ApiEndpoint (server ?r) = ''https://api''" by (simp add: server_def)
  have a: "client_Get (server ?r) (''https://api'' @ ''/v1/report'') = Inr ?r"
    by (simp add: server_def)
  have h: "Header ?r ''Content-Disposition'' = None" by (simp add: reply_def)
  have a': "client_Get (server ?r) (ApiEndpoint (server ?r) @ ''/v1/report'') = Inr ?r"
    unfolding e by (rule a)
  have "GetFile (server ?r) disk ''/v1/report'' ''/tmp/out'' = (Panic ''index out of range'', disk)"
    using a' by (rule GetFile_missing_filename_panics) (simp add: h)
  then show ?thesis by (intro conjI a h)
qed

end
